theory Spec2Isabelle
  imports Main "HOL-Library.AList" "HOL-Library.Stream"
begin

section \<open>The process registry of \<open>mamba run\<close> (libmamba/src/core/run.cpp)\<close>

text \<open>
  The registry is the directory \<open>~/.mamba/proc\<close>: one file \<open><pid>.json\<close> per running
  supervisor. The functions of run.cpp are embedded as HOL functions over an explicit
  directory value; exceptions are \<open>Inl\<close> results, warnings are returned beside the value.
\<close>

subsection \<open>Errors and warnings\<close>

datatype error =
    FilesystemError
  | ParseError string
  | TypeError
  | AssertionFailed
  | UndefinedBehaviour
  | RuntimeError string
  | LockfileFailure string

datatype warning =
    FailedToOpen string
  | FailedToRemove string
  | CouldNotCreateProcDir
  | EnvVarMissing string

subsection \<open>JSON values (nlohmann::json, as far as run.cpp uses it)\<close>

datatype json =
    JNull
  | JBool bool
  | JNumber int
  | JString string
  | JArray "json list"
  | JObject "(string \<times> json) list"

text \<open>\<open>j[key] = v\<close> on a mutable value: null becomes an object, an object is updated,
  anything else throws type_error.\<close>

fun json_set :: "json \<Rightarrow> string \<Rightarrow> json \<Rightarrow> error + json" where
  "json_set JNull k v = Inr (JObject [(k, v)])"
| "json_set (JObject kvs) k v = Inr (JObject (AList.update k v kvs))"
| "json_set _ k v = Inl TypeError"

text \<open>\<open>j[key]\<close> on a const value: the key must exist (the library asserts it); a value that
  is not an object throws type_error.\<close>

fun json_at_const :: "json \<Rightarrow> string \<Rightarrow> error + json" where
  "json_at_const (JObject kvs) k =
     (case map_of kvs k of None \<Rightarrow> Inl AssertionFailed | Some v \<Rightarrow> Inr v)"
| "json_at_const _ k = Inl TypeError"

text \<open>\<open>j.push_back(v)\<close>: null becomes an array.\<close>

fun json_push_back :: "json \<Rightarrow> json \<Rightarrow> error + json" where
  "json_push_back JNull v = Inr (JArray [v])"
| "json_push_back (JArray xs) v = Inr (JArray (xs @ [v]))"
| "json_push_back _ v = Inl TypeError"

fun json_empty :: "json \<Rightarrow> bool" where
  "json_empty JNull = True"
| "json_empty (JArray xs) = (xs = [])"
| "json_empty (JObject kvs) = (kvs = [])"
| "json_empty _ = False"

text \<open>The elements of a listing result (null is the empty listing).\<close>

fun json_elements :: "json \<Rightarrow> json list" where
  "json_elements (JArray xs) = xs"
| "json_elements _ = []"

fun json_lookup :: "json \<Rightarrow> string \<Rightarrow> json option" where
  "json_lookup (JObject kvs) k = map_of kvs k"
| "json_lookup _ k = None"

text \<open>Writing a value to a stream (\<open>stream << j\<close>) serialises it, and the serialiser throws
  type_error when a string of the value, a key included, is not valid UTF-8 (the library's
  behaviour, not code of this repository). It reads the bytes of a string with an automaton
  whose states are what it still waits for: nothing, one to three continuation bytes, or
  the restricted second byte after \<open>E0\<close>, \<open>ED\<close>, \<open>F0\<close> and \<open>F4\<close>; a byte with no transition,
  or a string that ends inside a sequence, is the error.\<close>

datatype utf8_state =
  Utf8Accept | Utf8Tail1 | Utf8Tail2 | Utf8Tail3 | Utf8E0 | Utf8ED | Utf8F0 | Utf8F4

definition utf8_step :: "utf8_state \<Rightarrow> nat \<Rightarrow> utf8_state option" where
  "utf8_step s b =
     (case s of
        Utf8Accept \<Rightarrow>
          if b < 0x80 then Some Utf8Accept
          else if 0xC2 \<le> b \<and> b \<le> 0xDF then Some Utf8Tail1
          else if b = 0xE0 then Some Utf8E0
          else if b = 0xED then Some Utf8ED
          else if 0xE1 \<le> b \<and> b \<le> 0xEF then Some Utf8Tail2
          else if b = 0xF0 then Some Utf8F0
          else if 0xF1 \<le> b \<and> b \<le> 0xF3 then Some Utf8Tail3
          else if b = 0xF4 then Some Utf8F4
          else None
      | Utf8Tail1 \<Rightarrow> if 0x80 \<le> b \<and> b \<le> 0xBF then Some Utf8Accept else None
      | Utf8Tail2 \<Rightarrow> if 0x80 \<le> b \<and> b \<le> 0xBF then Some Utf8Tail1 else None
      | Utf8Tail3 \<Rightarrow> if 0x80 \<le> b \<and> b \<le> 0xBF then Some Utf8Tail2 else None
      | Utf8E0 \<Rightarrow> if 0xA0 \<le> b \<and> b \<le> 0xBF then Some Utf8Tail1 else None
      | Utf8ED \<Rightarrow> if 0x80 \<le> b \<and> b \<le> 0x9F then Some Utf8Tail1 else None
      | Utf8F0 \<Rightarrow> if 0x90 \<le> b \<and> b \<le> 0xBF then Some Utf8Tail2 else None
      | Utf8F4 \<Rightarrow> if 0x80 \<le> b \<and> b \<le> 0x8F then Some Utf8Tail2 else None)"

fun utf8_decode :: "utf8_state \<Rightarrow> string \<Rightarrow> bool" where
  "utf8_decode s [] = (s = Utf8Accept)"
| "utf8_decode s (c # cs) =
     (case utf8_step s (of_char c) of None \<Rightarrow> False | Some s' \<Rightarrow> utf8_decode s' cs)"

definition valid_utf8 :: "string \<Rightarrow> bool" where
  "valid_utf8 str = utf8_decode Utf8Accept str"

text \<open>Whether a value can be serialised: every string and every key in it is valid UTF-8.\<close>

fun dumpable :: "json \<Rightarrow> bool" where
  "dumpable (JString s) = valid_utf8 s"
| "dumpable (JArray xs) = list_all dumpable xs"
| "dumpable (JObject kvs) = list_all (\<lambda>kv. valid_utf8 (fst kv) \<and> dumpable (snd kv)) kvs"
| "dumpable j = True"

subsection \<open>File names\<close>

text \<open>\<open>path::extension()\<close> of a file name: from the last period on; none for \<open>.\<close>, \<open>..\<close>
  and for a name whose only period is its first character.\<close>

definition extension :: "string \<Rightarrow> string" where
  "extension f =
     (if f = ''.'' \<or> f = ''..'' \<or> CHR ''.'' \<notin> set f then []
      else let tail = takeWhile (\<lambda>c. c \<noteq> CHR ''.'') (rev f);
               dot = length f - length tail - 1
           in if dot = 0 then [] else drop dot f)"

text \<open>\<open>path::replace_extension()\<close> with no argument removes the extension.\<close>

definition replace_extension :: "string \<Rightarrow> string" where
  "replace_extension f = take (length f - length (extension f)) f"

text \<open>\<open>fmt::format("{}", getpid())\<close>: the decimal digits of the process id.\<close>

definition digit_char :: "nat \<Rightarrow> char" where
  "digit_char d = ''0123456789'' ! d"

fun to_string :: "nat \<Rightarrow> string" where
  "to_string n = (if n < 10 then [digit_char n] else to_string (n div 10) @ [digit_char (n mod 10)])"

declare to_string.simps [simp del]

subsection \<open>The registry directory\<close>

text \<open>A file of the directory as the listing sees it: it cannot be opened, or its bytes
  do not parse as JSON (an empty file and an incomplete document are such), or they parse
  to a value. What \<open>pid_file << file_json\<close> writes in full is read back by \<open>json::parse\<close>
  as the same value.\<close>

datatype pid_file = Unopenable | Unparsable | Contents json

text \<open>The entries in the order \<open>directory_iterator\<close> enumerates them; \<open>None\<close> when the
  path is not a directory (the iterator's constructor throws).\<close>

type_synonym directory = "(string \<times> pid_file) list"

type_synonym json_filter = "json \<Rightarrow> error + bool"

fun list_entries ::
  "json_filter option \<Rightarrow> directory \<Rightarrow> json \<times> warning list \<Rightarrow> error + json \<times> warning list" where
  "list_entries flt [] acc = Inr acc"
| "list_entries flt ((fname, f) # es) (all_processes_info, warns) =
     (if extension fname \<noteq> ''.json'' then list_entries flt es (all_processes_info, warns)
      else case f of
        Unopenable \<Rightarrow>
          list_entries flt es (all_processes_info, warns @ [FailedToOpen fname])
      | Unparsable \<Rightarrow> Inl (ParseError fname)
      | Contents parsed \<Rightarrow>
          (case json_set parsed ''pid'' (JString (replace_extension fname)) of
             Inl e \<Rightarrow> Inl e
           | Inr running_processes_info \<Rightarrow>
               (case (case flt of None \<Rightarrow> Inr True
                      | Some keep \<Rightarrow> keep running_processes_info) of
                  Inl e \<Rightarrow> Inl e
                | Inr False \<Rightarrow> list_entries flt es (all_processes_info, warns)
                | Inr True \<Rightarrow>
                    (case json_push_back all_processes_info running_processes_info of
                       Inl e \<Rightarrow> Inl e
                     | Inr all' \<Rightarrow> list_entries flt es (all', warns)))))"

definition get_all_running_processes_info ::
  "json_filter option \<Rightarrow> directory option \<Rightarrow> error + json \<times> warning list" where
  "get_all_running_processes_info flt proc_dir =
     (case proc_dir of
        None \<Rightarrow> Inl FilesystemError
      | Some entries \<Rightarrow> list_entries flt entries (JNull, []))"

text \<open>The filter of \<open>is_process_name_running\<close>: \<open>process_info["name"] == name\<close>.\<close>

definition name_is :: "string \<Rightarrow> json_filter" where
  "name_is name process_info =
     (case json_at_const process_info ''name'' of
        Inl e \<Rightarrow> Inl e
      | Inr v \<Rightarrow> Inr (v = JString name))"

definition is_process_name_running :: "directory option \<Rightarrow> string \<Rightarrow> error + bool" where
  "is_process_name_running proc_dir name =
     (case get_all_running_processes_info (Some (name_is name)) proc_dir of
        Inl e \<Rightarrow> Inl e
      | Inr (other_processes_with_same_name, warns) \<Rightarrow>
          Inr (\<not> json_empty other_processes_with_same_name))"

subsection \<open>Random choices\<close>

text \<open>The random generator is an input: a stream of numbers, consumed in order.

  Modelled from the spec: \<open>random_int\<close> and \<open>generate_random_alphanumeric_string\<close> are
  declared in util_random.hpp, which is not among the sources. \<open>random_int lo hi\<close> is any
  number between \<open>lo\<close> and \<open>hi\<close>, both included; the random string has the requested
  length and only letters and digits.\<close>

definition random_int :: "nat \<Rightarrow> nat \<Rightarrow> nat stream \<Rightarrow> nat \<times> nat stream" where
  "random_int lo hi rng = (lo + shd rng mod (hi - lo + 1), stl rng)"

definition alphanumeric :: "string" where
  "alphanumeric = ''0123456789abcdefghijklmnopqrstuvwxyz''"

definition generate_random_alphanumeric_string :: "nat \<Rightarrow> nat stream \<Rightarrow> string \<times> nat stream" where
  "generate_random_alphanumeric_string len rng =
     (map (\<lambda>d. alphanumeric ! (d mod length alphanumeric)) (stake len rng), sdrop len rng)"

subsection \<open>The name generator\<close>

definition prefixes :: "string list" where
  "prefixes =
     [''curious'', ''gentle'', ''happy'', ''stubborn'', ''boring'', ''interesting'',
      ''funny'', ''weird'', ''surprising'', ''serious'', ''tender'', ''obvious'',
      ''great'', ''proud'', ''silent'', ''loud'', ''vacuous'', ''focused'',
      ''pretty'', ''slick'', ''tedious'', ''stubborn'', ''daring'', ''tenacious'',
      ''resilient'', ''rigorous'', ''friendly'', ''creative'', ''polite'', ''frank'',
      ''honest'', ''warm'', ''smart'', ''intriguing'']"

text \<open>The function's static variables: they keep their value from one call to the next.
  The random generator's position is carried with them.\<close>

record statics =
  prefixes_bag :: "string list"
  alt_names :: "string list"
  rng :: "nat stream"

definition initial_statics :: "nat stream \<Rightarrow> statics" where
  "initial_statics r =
     \<lparr>prefixes_bag = prefixes,
      alt_names = [''program'', ''application'', ''app'', ''code'', ''blob'', ''binary'', ''script''],
      rng = r\<rparr>"

text \<open>\<open>v.erase(std::next(v.begin(), i))\<close>.\<close>

definition erase :: "nat \<Rightarrow> 'a list \<Rightarrow> 'a list" where
  "erase i xs = take i xs @ drop (Suc i) xs"

text \<open>\<open>fmt::format("{}_{}", selected_prefix, selected_name)\<close>.\<close>

definition format_name :: "string \<Rightarrow> string \<Rightarrow> string" where
  "format_name selected_prefix selected_name = selected_prefix @ ''_'' @ selected_name"

text \<open>Lines 64 to 69: the index picked in the bag, and the statics once the prefix at
  that index is erased.\<close>

definition picked_prefix :: "statics \<Rightarrow> nat" where
  "picked_prefix st = fst (random_int 0 (length (prefixes_bag st) - 1) (rng st))"

definition pop_prefix :: "statics \<Rightarrow> statics" where
  "pop_prefix st =
     st\<lparr>prefixes_bag := erase (picked_prefix st) (prefixes_bag st),
        rng := snd (random_int 0 (length (prefixes_bag st) - 1) (rng st))\<rparr>"

text \<open>Lines 74 to 78: the index picked among the alternative names, and the statics once
  that name is erased and the bag refilled.\<close>

definition picked_alt_name :: "statics \<Rightarrow> nat" where
  "picked_alt_name st = fst (random_int 0 (length (alt_names st) - 1) (rng st))"

definition pop_alt_name :: "statics \<Rightarrow> statics" where
  "pop_alt_name st =
     st\<lparr>alt_names := erase (picked_alt_name st) (alt_names st),
        prefixes_bag := prefixes,
        rng := snd (random_int 0 (length (alt_names st) - 1) (rng st))\<rparr>"

text \<open>Lines 85 and 86: the fail-safe prefix, and the statics once the generator has
  produced it.\<close>

definition arbitrary_prefix_length :: nat where
  "arbitrary_prefix_length = 8"

definition random_prefix :: "statics \<Rightarrow> string" where
  "random_prefix st = fst (generate_random_alphanumeric_string arbitrary_prefix_length (rng st))"

definition after_random_prefix :: "statics \<Rightarrow> statics" where
  "after_random_prefix st =
     st\<lparr>rng := snd (generate_random_alphanumeric_string arbitrary_prefix_length (rng st))\<rparr>"

text \<open>The \<open>while (true)\<close> loop: \<open>None\<close> is a run that never leaves it, \<open>Some (Inl e)\<close> an
  exception of the registry listing, \<open>Some (Inr (name, statics))\<close> the return.\<close>

partial_function (option) name_loop ::
  "directory option \<Rightarrow> string \<Rightarrow> string \<Rightarrow> statics \<Rightarrow> (error + string \<times> statics) option" where
  "name_loop proc_dir program_name selected_name st =
     (if prefixes_bag st \<noteq> [] then
        (case is_process_name_running proc_dir
                (format_name (prefixes_bag st ! picked_prefix st) selected_name) of
           Inl e \<Rightarrow> Some (Inl e)
         | Inr running \<Rightarrow>
             if \<not> running then
               Some (Inr (format_name (prefixes_bag st ! picked_prefix st) selected_name,
                          pop_prefix st))
             else name_loop proc_dir program_name selected_name (pop_prefix st))
      else if alt_names st \<noteq> [] then
        name_loop proc_dir program_name (alt_names st ! picked_alt_name st) (pop_alt_name st)
      else
        (case is_process_name_running proc_dir (format_name (random_prefix st) program_name) of
           Inl e \<Rightarrow> Some (Inl e)
         | Inr running \<Rightarrow>
             if \<not> running then
               Some (Inr (format_name (random_prefix st) program_name, after_random_prefix st))
             else name_loop proc_dir program_name program_name (after_random_prefix st)))"

text \<open>\<open>assert(!program_name.empty())\<close>, then the loop with \<open>selected_name\<close> initialised to
  the program's name.\<close>

definition generate_unique_process_name ::
  "directory option \<Rightarrow> string \<Rightarrow> statics \<Rightarrow> (error + string \<times> statics) option" where
  "generate_unique_process_name proc_dir program_name st =
     (if program_name = [] then Some (Inl AssertionFailed)
      else name_loop proc_dir program_name program_name st)"

subsection \<open>The registry record of the running process\<close>

text \<open>\<open>file_json\<close> of the constructor: the keys \<open>name\<close>, \<open>command\<close> and \<open>prefix\<close>, set in
  this order on an empty value.\<close>

definition file_json :: "string \<Rightarrow> string list \<Rightarrow> string \<Rightarrow> json" where
  "file_json name command prefix =
     JObject (AList.update ''prefix'' (JString prefix)
       (AList.update ''command'' (JArray (map JString command))
         [(''name'', JString name)]))"

text \<open>\<open>fmt::format("{}.json", getpid())\<close>, the file's name inside the directory.\<close>

definition location :: "nat \<Rightarrow> string" where
  "location pid = to_string pid @ ''.json''"

text \<open>Modelled from the spec: \<open>LockFile\<close> is declared in util.hpp, which is not among the
  sources. Its constructor acquires the lock of the directory or fails with an error;
  with locking disabled it holds nothing and is no error; the destructor of the object
  that owns the lock releases it, and a moved-from object owns nothing.\<close>

datatype lock_config = LockingEnabled | LockingDisabled | LockingFails string

datatype LockFile = Held | Empty

datatype stop = StopNoop | StopWait | StopTerminate | StopKill

record stop_action =
  action :: stop
  timeout :: nat

record stop_actions =
  first :: stop_action
  second :: stop_action
  third :: stop_action

datatype event =
    Warn warning
  | LockAcquired
  | LockReleased
  | RecordWritten string json
  | RecordRemoved string
  | Forked nat
  | ChildStarted "string list" nat
  | StartFailed
  | HandlerInstalled
  | StopRequested stop_actions
  | Drained

definition lock_proc_dir :: "lock_config \<Rightarrow> error + LockFile" where
  "lock_proc_dir cfg =
     (case cfg of
        LockingEnabled \<Rightarrow> Inr Held
      | LockingDisabled \<Rightarrow> Inr Empty
      | LockingFails what \<Rightarrow> Inl (LockfileFailure what))"

definition acquired :: "LockFile \<Rightarrow> event list" where
  "acquired lock = (if lock = Held then [LockAcquired] else [])"

text \<open>The destructor of a \<open>LockFile\<close>.\<close>

definition released :: "LockFile \<Rightarrow> event list" where
  "released lock = (if lock = Held then [LockReleased] else [])"

definition apostrophe :: "string" where
  "apostrophe = [CHR 0x27]"

text \<open>The constructor takes the lock by value: the parameter is destroyed, and the lock
  released, when the constructor is left, also by its exception. \<open>opens\<close> says whether
  the output stream can open the file; opening it creates the file or truncates it. When
  \<open>pid_file << file_json\<close> throws, the file stays, with the incomplete document written so
  far. The result is the directory after a return (\<open>Inr\<close>), or the exception with the
  directory as it is left (\<open>Inl\<close>).\<close>

definition ScopedProcFile_ctor ::
  "nat \<Rightarrow> bool \<Rightarrow> bool \<Rightarrow> string \<Rightarrow> string \<Rightarrow> string list \<Rightarrow> LockFile \<Rightarrow> directory option \<Rightarrow>
   (error \<times> directory option + directory option) \<times> event list" where
  "ScopedProcFile_ctor pid use_lockfiles opens target_prefix name command proc_dir_lock proc_dir =
     (if use_lockfiles \<and> proc_dir_lock \<noteq> Held then
        (Inl (AssertionFailed, proc_dir), released proc_dir_lock)
      else case proc_dir of
        None \<Rightarrow>
          (Inl (RuntimeError (apostrophe @ ''mamba run'' @ apostrophe
                  @ '' failed to open/create file: '' @ location pid), None),
           released proc_dir_lock)
      | Some entries \<Rightarrow>
          if \<not> opens then
            (Inl (RuntimeError (apostrophe @ ''mamba run'' @ apostrophe
                    @ '' failed to open/create file: '' @ location pid), Some entries),
             released proc_dir_lock)
          else if \<not> dumpable (file_json name command target_prefix) then
            (Inl (TypeError, Some (AList.update (location pid) Unparsable entries)),
             released proc_dir_lock)
          else
            (Inr (Some (AList.update (location pid)
                          (Contents (file_json name command target_prefix)) entries)),
             RecordWritten (location pid) (file_json name command target_prefix)
               # released proc_dir_lock))"

text \<open>The destructor: lock, remove the file, warn if nothing was removed, unlock.\<close>

definition ScopedProcFile_dtor ::
  "lock_config \<Rightarrow> string \<Rightarrow> directory option \<Rightarrow> error + directory option \<times> event list" where
  "ScopedProcFile_dtor cfg loc proc_dir =
     (case lock_proc_dir cfg of
        Inl e \<Rightarrow> Inl e
      | Inr lock \<Rightarrow>
          (case proc_dir of
             None \<Rightarrow> Inr (None, acquired lock @ [Warn (FailedToRemove loc)] @ released lock)
           | Some entries \<Rightarrow>
               if loc \<in> fst ` set entries then
                 Inr (Some (AList.delete loc entries),
                      acquired lock @ [RecordRemoved loc] @ released lock)
               else
                 Inr (Some entries,
                      acquired lock @ [Warn (FailedToRemove loc)] @ released lock)))"

subsection \<open>Detaching\<close>

text \<open>What the process meets outside the registry: its pid, what \<open>fork\<close> and \<open>setsid\<close>
  answer, whether the directory can be created and written, how the lock behaves, the
  wrapping of the command (\<open>prepare_wrapped_call\<close>), the environment variables, and the
  child: whether it starts, under which pid, whether a SIGTERM arrives while it runs, and
  the status the last \<open>stop\<close> reports.\<close>

record environment =
  self_pid :: nat
  ppid_is_init :: bool
  fork_result :: "nat option"
  setsid_ok :: bool
  dir_creatable :: bool
  proc_dir_writable :: bool
  pid_file_opens :: bool
  locking :: lock_config
  target_prefix :: string
  prepare_wrapped_call :: "string list \<Rightarrow> string list"
  getenv :: "string \<Rightarrow> string option"
  child_pid :: "nat option"
  sigterm_arrives :: bool
  child_status :: int

datatype daemonized = Continues nat | Exits int

text \<open>\<open>daemonize\<close>, followed in the process that goes on: after a successful \<open>fork\<close> that
  is the new process (the old one exits with 0), whose \<open>getpid\<close> is the pid \<open>fork\<close> gave.\<close>

definition daemonize :: "environment \<Rightarrow> daemonized \<times> event list" where
  "daemonize env =
     (if ppid_is_init env then (Continues (self_pid env), [])
      else case fork_result env of
        None \<Rightarrow> (Exits 1, [])
      | Some pid \<Rightarrow>
          if \<not> setsid_ok env then (Exits 1, [Forked pid])
          else (Continues pid, [Forked pid]))"

subsection \<open>The child's options\<close>

datatype redirect = Parent | Discard

text \<open>\<open>reproc::options\<close>, the fields run.cpp reads or writes. A value built by the default
  constructor has no stop action set: each is \<open>noop\<close> with a timeout of 0.\<close>

record options =
  working_directory :: "string option"
  env_empty :: bool
  env_extra :: "(string \<times> string) list"
  redirect_out :: redirect
  redirect_err :: redirect
  redirect_in :: redirect
  stop :: stop_actions

definition no_action :: stop_action where
  "no_action = \<lparr>action = StopNoop, timeout = 0\<rparr>"

definition default_options :: options where
  "default_options =
     \<lparr>working_directory = None, env_empty = False, env_extra = [],
      redirect_out = Parent, redirect_err = Parent, redirect_in = Parent,
      stop = \<lparr>first = no_action, second = no_action, third = no_action\<rparr>\<rparr>"

text \<open>The loop over \<open>env_vars\<close>: \<open>KEY=VALUE\<close> is split at the first \<open>=\<close>, a bare name is
  looked up in the environment.\<close>

fun env_entries ::
  "(string \<Rightarrow> string option) \<Rightarrow> string list \<Rightarrow> (string \<times> string) list \<times> warning list \<Rightarrow>
   (string \<times> string) list \<times> warning list" where
  "env_entries lookup [] acc = acc"
| "env_entries lookup (e # es) (env_map, warns) =
     (if CHR ''='' \<in> set e then
        env_entries lookup es
          (AList.update (takeWhile (\<lambda>c. c \<noteq> CHR ''='') e)
             (drop 1 (dropWhile (\<lambda>c. c \<noteq> CHR ''='') e)) env_map, warns)
      else case lookup e of
        Some val \<Rightarrow> env_entries lookup es (AList.update e val env_map, warns)
      | None \<Rightarrow> env_entries lookup es (env_map, warns @ [EnvVarMissing e]))"

text \<open>The stream options are one bit per stream (\<open>SINKOUT\<close> 1, \<open>SINKERR\<close> 2, \<open>SINKIN\<close> 4).\<close>

definition make_options ::
  "environment \<Rightarrow> string \<Rightarrow> int \<Rightarrow> bool \<Rightarrow> string list \<Rightarrow> options \<times> warning list" where
  "make_options env cwd stream_options clean_env env_vars =
     (default_options
        \<lparr>working_directory := (if cwd \<noteq> [] then Some cwd else None),
         env_empty := clean_env,
         env_extra := fst (env_entries (getenv env) env_vars ([], [])),
         redirect_out := (if bit stream_options 0 then Discard else Parent),
         redirect_err := (if bit stream_options 1 then Discard else Parent),
         redirect_in := (if bit stream_options 2 then Discard else Parent)\<rparr>,
      snd (env_entries (getenv env) env_vars ([], [])))"

text \<open>The stop actions of the SIGTERM handler.\<close>

definition sigterm_stop_actions :: stop_actions where
  "sigterm_stop_actions =
     \<lparr>first = \<lparr>action = StopTerminate, timeout = 3000\<rparr>,
      second = \<lparr>action = StopKill, timeout = 3000\<rparr>,
      third = no_action\<rparr>"

text \<open>How \<open>reproc\<close> carries out a stop request (the library's contract, not code of this
  repository): the actions in order; after an action it waits up to the action's
  timeout and goes on to the next action only when the child has not exited by then.
  \<open>exits_within a t\<close> says whether the child exits within \<open>t\<close> ms of action \<open>a\<close>. The
  result is the list of actions carried out.\<close>

fun carry_out :: "(stop \<Rightarrow> nat \<Rightarrow> bool) \<Rightarrow> stop_action list \<Rightarrow> stop_action list" where
  "carry_out exits_within [] = []"
| "carry_out exits_within (a # as) =
     (if action a = StopNoop then carry_out exits_within as
      else if exits_within (action a) (timeout a) then [a]
      else a # carry_out exits_within as)"

definition reproc_stop :: "(stop \<Rightarrow> nat \<Rightarrow> bool) \<Rightarrow> stop_actions \<Rightarrow> stop_action list" where
  "reproc_stop exits_within sa = carry_out exits_within [first sa, second sa, third sa]"

subsection \<open>Running the child\<close>

datatype outcome = Returned int | Threw error | Exited int | NeverReturns | Terminated

text \<open>What a run leaves: how it ends, its events in order, the registry directory and
  the statics at its end, and the registry directory at the moment \<open>proc.start\<close> is called
  (line 380), which is the directory as the run leaves it when it does not get there.\<close>

record execution =
  result :: outcome
  trace :: "event list"
  registry :: "directory option"
  pools :: statics
  registry_at_start :: "directory option"

text \<open>Lines 376 to 423: start the child, give up with 1 when it has no pid, install the
  handler, drain, stop with \<open>opt.stop\<close>. A SIGTERM that arrives while the child runs makes
  the handler ask for its own stop actions.\<close>

definition supervise :: "environment \<Rightarrow> options \<Rightarrow> string list \<Rightarrow> int \<times> event list" where
  "supervise env opt wrapped_command =
     (case child_pid env of
        None \<Rightarrow> (1, [StartFailed])
      | Some pid \<Rightarrow>
          (child_status env,
           [ChildStarted wrapped_command pid, HandlerInstalled]
           @ (if sigterm_arrives env then [StopRequested sigterm_stop_actions] else [])
           @ [Drained, StopRequested (stop opt)]))"

text \<open>\<open>fs::create_directories(proc_dir(), ec)\<close> and its warning.\<close>

definition create_directories :: "environment \<Rightarrow> directory option \<Rightarrow> directory option \<times> event list" where
  "create_directories env proc_dir =
     (case proc_dir of
        Some entries \<Rightarrow> (Some entries, [])
      | None \<Rightarrow> if dir_creatable env then (Some [], []) else (None, [Warn CouldNotCreateProcDir]))"

text \<open>The lambda that settles \<open>process_name\<close> (lines 341 to 365); \<open>command\<close> starts with
  \<open>exec\<close> here and the executable's name is its second element.\<close>

definition resolve_process_name ::
  "directory option \<Rightarrow> statics \<Rightarrow> string list \<Rightarrow> string \<Rightarrow>
   (error + string \<times> string list \<times> statics) option" where
  "resolve_process_name proc_dir st command specific_process_name =
     (if specific_process_name = [] then
        (case drop 1 command of
           [] \<Rightarrow> Some (Inl UndefinedBehaviour)
         | exe_name # args \<Rightarrow>
             (case generate_unique_process_name proc_dir exe_name st of
                None \<Rightarrow> None
              | Some (Inl e) \<Rightarrow> Some (Inl e)
              | Some (Inr (unique_name, st')) \<Rightarrow>
                  Some (Inr (unique_name,
                             take 1 command @ [''-a'', unique_name] @ drop 1 command, st'))))
      else
        (case is_process_name_running proc_dir specific_process_name of
           Inl e \<Rightarrow> Some (Inl e)
         | Inr running \<Rightarrow>
             if running then
               Some (Inl (RuntimeError (''Another process with name '' @ apostrophe
                            @ specific_process_name @ apostrophe @ '' is currently running.'')))
             else
               Some (Inr (specific_process_name,
                          take 1 command @ [''-a'', specific_process_name] @ drop 1 command,
                          st))))"

text \<open>The block of lines 335 to 424, run by the process \<open>pid\<close>. Its locals are destroyed
  in reverse order when it is left: the record file first, the lock last.\<close>

definition block ::
  "environment \<Rightarrow> nat \<Rightarrow> directory option \<Rightarrow> statics \<Rightarrow> string list \<Rightarrow> string list \<Rightarrow>
   string list \<Rightarrow> options \<Rightarrow> string \<Rightarrow> execution" where
  "block env pid proc_dir st command raw_command wrapped_command opt specific_process_name =
     (case lock_proc_dir (locking env) of
        Inl e \<Rightarrow>
          \<lparr>result = Threw e, trace = [], registry = proc_dir, pools = st,
           registry_at_start = proc_dir\<rparr>
      | Inr proc_dir_lock \<Rightarrow>
          (case resolve_process_name proc_dir st command specific_process_name of
             None \<Rightarrow>
               \<lparr>result = NeverReturns, trace = acquired proc_dir_lock,
                registry = proc_dir, pools = st, registry_at_start = proc_dir\<rparr>
           | Some (Inl e) \<Rightarrow>
               \<lparr>result = Threw e, trace = acquired proc_dir_lock @ released proc_dir_lock,
                registry = proc_dir, pools = st, registry_at_start = proc_dir\<rparr>
           | Some (Inr (process_name, command', st')) \<Rightarrow>
               if proc_dir \<noteq> None \<and> proc_dir_writable env then
                 (case ScopedProcFile_ctor pid (locking env \<noteq> LockingDisabled)
                         (pid_file_opens env) (target_prefix env) process_name raw_command
                         proc_dir_lock proc_dir of
                    (Inl (e, proc_dir'), evs) \<Rightarrow>
                      \<lparr>result = Threw e, trace = acquired proc_dir_lock @ evs,
                       registry = proc_dir', pools = st', registry_at_start = proc_dir'\<rparr>
                  | (Inr proc_dir', evs) \<Rightarrow>
                      (case ScopedProcFile_dtor (locking env) (location pid) proc_dir' of
                         Inl e \<Rightarrow>
                           \<lparr>result = Terminated,
                            trace = acquired proc_dir_lock @ evs
                                    @ snd (supervise env opt wrapped_command),
                            registry = proc_dir', pools = st',
                            registry_at_start = proc_dir'\<rparr>
                       | Inr (proc_dir'', devs) \<Rightarrow>
                           \<lparr>result = Returned (fst (supervise env opt wrapped_command)),
                            trace = acquired proc_dir_lock @ evs
                                    @ snd (supervise env opt wrapped_command) @ devs,
                            registry = proc_dir'', pools = st',
                            registry_at_start = proc_dir'\<rparr>))
               else
                 \<lparr>result = Returned (fst (supervise env opt wrapped_command)),
                  trace = acquired proc_dir_lock @ snd (supervise env opt wrapped_command)
                          @ released proc_dir_lock,
                  registry = proc_dir, pools = st', registry_at_start = proc_dir\<rparr>))"

text \<open>\<open>run_in_environment\<close>, the directory, the statics and the environment made explicit.
  The listing of line 263 is an operand of the log stream: it is evaluated and written to
  that stream, whatever the log level, before anything else is done.\<close>

definition run_in_environment ::
  "environment \<Rightarrow> directory option \<Rightarrow> statics \<Rightarrow> string list \<Rightarrow> string \<Rightarrow> int \<Rightarrow> bool \<Rightarrow> bool \<Rightarrow>
   string list \<Rightarrow> string \<Rightarrow> execution" where
  "run_in_environment env proc_dir0 st command cwd stream_options clean_env detach env_vars
     specific_process_name =
     (case get_all_running_processes_info None (fst (create_directories env proc_dir0)) of
        Inl e \<Rightarrow>
          \<lparr>result = Threw e, trace = snd (create_directories env proc_dir0),
           registry = fst (create_directories env proc_dir0), pools = st,
           registry_at_start = fst (create_directories env proc_dir0)\<rparr>
      | Inr (info, warns) \<Rightarrow>
          if \<not> dumpable info then
            \<lparr>result = Threw TypeError,
             trace = snd (create_directories env proc_dir0) @ map Warn warns,
             registry = fst (create_directories env proc_dir0), pools = st,
             registry_at_start = fst (create_directories env proc_dir0)\<rparr>
          else
          (case command of
             [] \<Rightarrow>
               \<lparr>result = Threw UndefinedBehaviour,
                trace = snd (create_directories env proc_dir0) @ map Warn warns,
                registry = fst (create_directories env proc_dir0), pools = st,
                registry_at_start = fst (create_directories env proc_dir0)\<rparr>
           | front # args \<Rightarrow>
               (case (if detach then daemonize env else (Continues (self_pid env), [])) of
                  (Exits code, devs) \<Rightarrow>
                    \<lparr>result = Exited code,
                     trace = snd (create_directories env proc_dir0) @ map Warn warns
                             @ map Warn (snd (make_options env cwd stream_options clean_env env_vars))
                             @ devs,
                     registry = fst (create_directories env proc_dir0), pools = st,
                     registry_at_start = fst (create_directories env proc_dir0)\<rparr>
                | (Continues pid, devs) \<Rightarrow>
                    (let ex = block env pid (fst (create_directories env proc_dir0)) st
                                (if front \<noteq> ''exec'' then ''exec'' # command else command)
                                command
                                (prepare_wrapped_call env
                                   (if front \<noteq> ''exec'' then ''exec'' # command else command))
                                (fst (make_options env cwd stream_options clean_env env_vars))
                                specific_process_name
                     in ex\<lparr>trace :=
                          snd (create_directories env proc_dir0) @ map Warn warns
                          @ map Warn (snd (make_options env cwd stream_options clean_env env_vars))
                          @ devs @ trace ex\<rparr>))))"

subsection \<open>Notions the properties are stated with\<close>

text \<open>The directory without the record files that cannot be opened, and the warnings the
  listing gives for those.\<close>

definition readable :: "directory \<Rightarrow> directory" where
  "readable es = filter (\<lambda>(n, f). \<not> (extension n = ''.json'' \<and> f = Unopenable)) es"

definition open_failures :: "directory \<Rightarrow> warning list" where
  "open_failures es =
     map (\<lambda>(n, f). FailedToOpen n) (filter (\<lambda>(n, f). extension n = ''.json'' \<and> f = Unopenable) es)"

text \<open>The record the listing makes of one entry: the file's value with the key \<open>pid\<close> set
  to the file's name without its extension.\<close>

fun entry_record :: "string \<times> pid_file \<Rightarrow> json list" where
  "entry_record (n, Contents j) =
     (if extension n = ''.json'' then
        (case json_set j ''pid'' (JString (replace_extension n)) of
           Inr r \<Rightarrow> [r]
         | Inl e \<Rightarrow> [])
      else [])"
| "entry_record (n, f) = []"

definition records_of :: "directory \<Rightarrow> json list" where
  "records_of es = concat (map entry_record es)"

text \<open>A record file the unfiltered listing accepts: it cannot be opened (and is skipped),
  or holds an object or null.\<close>

fun listable_file :: "pid_file \<Rightarrow> bool" where
  "listable_file Unopenable = True"
| "listable_file (Contents JNull) = True"
| "listable_file (Contents (JObject kvs)) = True"
| "listable_file f = False"

definition listable :: "directory \<Rightarrow> bool" where
  "listable es = list_all (\<lambda>(n, f). extension n \<noteq> ''.json'' \<or> listable_file f) es"

text \<open>A record file the name check accepts: it cannot be opened, or holds an object with
  the key \<open>name\<close>.\<close>

fun named_file :: "pid_file \<Rightarrow> bool" where
  "named_file Unopenable = True"
| "named_file (Contents (JObject kvs)) = (map_of kvs ''name'' \<noteq> None)"
| "named_file f = False"

definition well_formed :: "directory \<Rightarrow> bool" where
  "well_formed es = list_all (\<lambda>(n, f). extension n \<noteq> ''.json'' \<or> named_file f) es"

text \<open>The names the registry holds.\<close>

definition registered_names :: "directory \<Rightarrow> string list" where
  "registered_names es =
     concat (map (\<lambda>r. case json_lookup r ''name'' of Some (JString s) \<Rightarrow> [s] | _ \<Rightarrow> [])
               (records_of es))"


text \<open>The same, each resolution returning its first candidate: the bag is not empty and
  the prefix picked there gives a name that is not in use.\<close>

fun resolve_each_at_once :: "directory option \<Rightarrow> string list \<Rightarrow> statics \<Rightarrow> statics option" where
  "resolve_each_at_once proc_dir [] st = Some st"
| "resolve_each_at_once proc_dir (program_name # rest) st =
     (if prefixes_bag st \<noteq> []
         \<and> is_process_name_running proc_dir
               (format_name (prefixes_bag st ! picked_prefix st) program_name) = Inr False
      then (case generate_unique_process_name proc_dir program_name st of
              Some (Inr (name, st')) \<Rightarrow> resolve_each_at_once proc_dir rest st'
            | _ \<Rightarrow> None)
      else None)"


text \<open>A directory holds a file name once.\<close>

definition file_names_unique :: "directory option \<Rightarrow> bool" where
  "file_names_unique proc_dir =
     (case proc_dir of None \<Rightarrow> True | Some entries \<Rightarrow> distinct (map fst entries))"

text \<open>The listing of line 263 returns and can be written to the log stream.\<close>

definition loggable :: "directory option \<Rightarrow> bool" where
  "loggable proc_dir =
     (case get_all_running_processes_info None proc_dir of
        Inl e \<Rightarrow> False
      | Inr (info, warns) \<Rightarrow> dumpable info)"

text \<open>Strings of 7-bit characters.\<close>

definition ascii :: "string \<Rightarrow> bool" where
  "ascii str = list_all (\<lambda>c. \<not> digit7 c) str"

text \<open>What a trace says: the records written, the children started, the stop requests,
  in the order of the trace.\<close>

definition records_written :: "event list \<Rightarrow> (string \<times> json) list" where
  "records_written tr =
     concat (map (\<lambda>e. case e of RecordWritten loc j \<Rightarrow> [(loc, j)] | _ \<Rightarrow> []) tr)"

definition children_started :: "event list \<Rightarrow> (string list \<times> nat) list" where
  "children_started tr =
     concat (map (\<lambda>e. case e of ChildStarted cmd pid \<Rightarrow> [(cmd, pid)] | _ \<Rightarrow> []) tr)"

definition stop_requests :: "event list \<Rightarrow> stop_actions list" where
  "stop_requests tr =
     concat (map (\<lambda>e. case e of StopRequested sa \<Rightarrow> [sa] | _ \<Rightarrow> []) tr)"

text \<open>Whether a child is started at a moment when the process holds the directory lock;
  \<open>held\<close> says whether it holds the lock before the first event.\<close>

fun started_under_lock :: "bool \<Rightarrow> event list \<Rightarrow> bool" where
  "started_under_lock held [] = False"
| "started_under_lock held (LockAcquired # tr) = started_under_lock True tr"
| "started_under_lock held (LockReleased # tr) = started_under_lock False tr"
| "started_under_lock held (ChildStarted cmd pid # tr) = (held \<or> started_under_lock held tr)"
| "started_under_lock held (e # tr) = started_under_lock held tr"

text \<open>The pid of the process that runs the block: the one \<open>daemonize\<close> leaves running
  when detaching is asked for, the invoked one otherwise.\<close>

definition supervisor_pid :: "environment \<Rightarrow> bool \<Rightarrow> nat" where
  "supervisor_pid env detach =
     (if detach \<and> \<not> ppid_is_init env
      then (case fork_result env of Some pid \<Rightarrow> pid | None \<Rightarrow> self_pid env)
      else self_pid env)"

text \<open>An environment for the examples: process 500, whose \<open>fork\<close> gives process 501; the
  directory can be created and written; locking is enabled and works; the child starts
  as process 777, no SIGTERM arrives, and its status is 0.\<close>

definition example_env :: environment where
  "example_env =
     \<lparr>self_pid = 500, ppid_is_init = False, fork_result = Some 501, setsid_ok = True,
      dir_creatable = True, proc_dir_writable = True, pid_file_opens = True,
      locking = LockingEnabled, target_prefix = ''/opt/env'',
      prepare_wrapped_call = (\<lambda>command. ''/tmp/wrapped.sh'' # command),
      getenv = (\<lambda>name. None), child_pid = Some 777, sigterm_arrives = False,
      child_status = 0\<rparr>"

text \<open>The values a listing returns: null (no record) or an array.\<close>

fun is_listing :: "json \<Rightarrow> bool" where
  "is_listing JNull = True"
| "is_listing (JArray xs) = True"
| "is_listing j = False"

section \<open>Properties\<close>

subsection \<open>Strings the serialiser accepts\<close>

lemma ascii_step: "\<not> digit7 c \<Longrightarrow> utf8_step Utf8Accept (of_char c) = Some Utf8Accept"
proof -
  assume "\<not> digit7 c"
  then have "(of_char c :: nat) < 128"
    by (cases c) (simp add: numeral_eq_Suc)
  then show ?thesis by (simp add: utf8_step_def)
qed

lemma ascii_valid_utf8: "ascii str \<Longrightarrow> valid_utf8 str"
  unfolding valid_utf8_def ascii_def
  by (induction str) (simp_all add: ascii_step)

lemma valid_utf8_append: "valid_utf8 a \<Longrightarrow> valid_utf8 (a @ b) = valid_utf8 b"
proof -
  have "utf8_decode s a \<Longrightarrow> utf8_decode s (a @ b) = utf8_decode Utf8Accept b" for s
    by (induction a arbitrary: s) (auto split: option.splits)
  then show "valid_utf8 a \<Longrightarrow> valid_utf8 (a @ b) = valid_utf8 b"
    by (simp add: valid_utf8_def)
qed

lemma latin1_byte_invalid: "\<not> valid_utf8 [CHR 0xE9]"
  by (simp add: valid_utf8_def utf8_step_def)

lemma dumpable_file_json:
  "dumpable (file_json name command prefix)
     \<longleftrightarrow> valid_utf8 name \<and> list_all valid_utf8 command \<and> valid_utf8 prefix"
proof -
  have keys: "valid_utf8 ''name''" "valid_utf8 ''command''" "valid_utf8 ''prefix''"
    by (simp_all add: ascii_valid_utf8 ascii_def)
  have "list_all dumpable (map JString command) = list_all valid_utf8 command"
    by (induction command) simp_all
  then show ?thesis by (auto simp: file_json_def keys)
qed

lemma dumpable_file_json_ascii:
  "ascii name \<Longrightarrow> list_all ascii command \<Longrightarrow> ascii prefix \<Longrightarrow>
     dumpable (file_json name command prefix)"
  unfolding dumpable_file_json
  by (induction command) (simp_all add: ascii_valid_utf8)


subsection \<open>File names of records\<close>

lemma digit_char_not_dot: "d < 10 \<Longrightarrow> digit_char d \<noteq> CHR ''.''"
proof -
  assume "d < 10"
  then have "digit_char d \<in> set ''0123456789''"
    unfolding digit_char_def by (intro nth_mem) simp
  then show ?thesis by auto
qed

lemma to_string_no_dot: "CHR ''.'' \<notin> set (to_string n)"
proof (induction n rule: to_string.induct)
  case (1 n)
  show ?case
  proof (cases "n < 10")
    case True
    then show ?thesis using digit_char_not_dot [of n]
      by (subst to_string.simps) auto
  next
    case False
    then show ?thesis using 1 digit_char_not_dot [of "n mod 10"]
      by (subst to_string.simps) auto
  qed
qed

lemma to_string_not_Nil: "to_string n \<noteq> []"
  by (subst to_string.simps) simp

lemma extension_json:
  assumes "s \<noteq> []" "CHR ''.'' \<notin> set s"
  shows "extension (s @ ''.json'') = ''.json''"
proof -
  have tw: "takeWhile (\<lambda>c. c \<noteq> CHR ''.'') (rev (s @ ''.json'')) = ''nosj''"
    by simp
  have ne: "s @ ''.json'' \<noteq> ''.''" "s @ ''.json'' \<noteq> ''..''"
    using assms by (cases s; simp)+
  show ?thesis using assms ne
    unfolding extension_def tw by (simp add: Let_def)
qed

lemma extension_split: "extension f = e \<Longrightarrow> f = replace_extension f @ e"
  unfolding replace_extension_def extension_def
  by (auto simp: Let_def split: if_splits)

subsection \<open>Listing the registry\<close>

lemma readable_Cons:
  "readable ((n, f) # es) =
     (if extension n = ''.json'' \<and> f = Unopenable then readable es else (n, f) # readable es)"
  by (simp add: readable_def)

lemma open_failures_Cons:
  "open_failures ((n, f) # es) =
     (if extension n = ''.json'' \<and> f = Unopenable then FailedToOpen n # open_failures es
      else open_failures es)"
  by (simp add: open_failures_def)

lemma list_entries_readable:
  "list_entries flt es (a, w) =
     (case list_entries flt (readable es) (a, []) of
        Inl e \<Rightarrow> Inl e
      | Inr (j, w') \<Rightarrow> Inr (j, w @ open_failures es))"
proof (induction es arbitrary: a w)
  case Nil
  then show ?case by (simp add: readable_def open_failures_def)
next
  case (Cons x es)
  obtain n f where x: "x = (n, f)" by (cases x)
  show ?case unfolding x
  proof (cases "extension n = ''.json''")
    case False
    then show "list_entries flt ((n, f) # es) (a, w) =
      (case list_entries flt (readable ((n, f) # es)) (a, []) of
        Inl e \<Rightarrow> Inl e | Inr (j, w') \<Rightarrow> Inr (j, w @ open_failures ((n, f) # es)))"
      by (simp add: readable_Cons open_failures_Cons Cons.IH [of a w] split: sum.splits prod.splits)
  next
    case True
    show "list_entries flt ((n, f) # es) (a, w) =
      (case list_entries flt (readable ((n, f) # es)) (a, []) of
        Inl e \<Rightarrow> Inl e | Inr (j, w') \<Rightarrow> Inr (j, w @ open_failures ((n, f) # es)))"
    proof (cases f)
      case Unopenable
      then show ?thesis using True
        by (simp add: readable_Cons open_failures_Cons Cons.IH [of a "w @ [FailedToOpen n]"]
            split: sum.splits prod.splits)
    next
      case Unparsable
      then show ?thesis using True by (simp add: readable_Cons open_failures_Cons)
    next
      case (Contents j)
      then show ?thesis using True
        by (simp add: readable_Cons open_failures_Cons Cons.IH
            split: sum.splits bool.splits option.splits prod.splits)
    qed
  qed
qed

lemma list_entries_unparsable:
  "(n, Unparsable) \<in> set es \<Longrightarrow> extension n = ''.json'' \<Longrightarrow> isl (list_entries flt es acc)"
proof (induction es arbitrary: acc)
  case Nil
  then show ?case by simp
next
  case (Cons x es)
  obtain m f where x: "x = (m, f)" by (cases x)
  obtain a w where acc: "acc = (a, w)" by (cases acc)
  show ?case
  proof (cases "x = (n, Unparsable)")
    case True
    then show ?thesis using Cons.prems by (simp add: acc)
  next
    case False
    then have "(n, Unparsable) \<in> set es" using Cons.prems by auto
    then have "\<And>acc. isl (list_entries flt es acc)" using Cons.IH Cons.prems by blast
    then show ?thesis
      by (auto simp: x acc split: pid_file.splits sum.splits bool.splits option.splits)
  qed
qed

text \<open>
  C3, as the code has it: the listing skips the record files it cannot open, with one
  warning for each, and returns what it returns without them; a record file whose
  content does not parse is not skipped: the parser's exception ends the listing.
\<close>

theorem listing_skips_unopenable_fails_on_unparsable:
  "get_all_running_processes_info flt (Some es) =
     (case get_all_running_processes_info flt (Some (readable es)) of
        Inl e \<Rightarrow> Inl e
      | Inr (j, w) \<Rightarrow> Inr (j, open_failures es))
   \<and> (\<forall>n. (n, Unparsable) \<in> set es \<and> extension n = ''.json''
          \<longrightarrow> isl (get_all_running_processes_info flt (Some es)))"
proof
  show "get_all_running_processes_info flt (Some es) =
     (case get_all_running_processes_info flt (Some (readable es)) of
        Inl e \<Rightarrow> Inl e
      | Inr (j, w) \<Rightarrow> Inr (j, open_failures es))"
    using list_entries_readable [of flt es JNull "[]"]
    by (simp add: get_all_running_processes_info_def split: sum.splits prod.splits)
next
  show "\<forall>n. (n, Unparsable) \<in> set es \<and> extension n = ''.json''
          \<longrightarrow> isl (get_all_running_processes_info flt (Some es))"
    using list_entries_unparsable [of _ es flt "(JNull, [])"]
    by (auto simp: get_all_running_processes_info_def)
qed

theorem listing_skips_unopenable_fails_on_unparsable_witness:
  "get_all_running_processes_info None
     (Some [(''7.json'', Unopenable),
            (''8.json'', Contents (JObject [(''name'', JString ''happy_echo'')])),
            (''notes.txt'', Unparsable)])
   = Inr (JArray [JObject [(''name'', JString ''happy_echo''), (''pid'', JString ''8'')]],
          [FailedToOpen ''7.json''])
   \<and> isl (get_all_running_processes_info None
          (Some [(''8.json'', Contents (JObject [(''name'', JString ''happy_echo'')])),
                 (''9.json'', Unparsable)]))"
proof
  show "get_all_running_processes_info None
     (Some [(''7.json'', Unopenable),
            (''8.json'', Contents (JObject [(''name'', JString ''happy_echo'')])),
            (''notes.txt'', Unparsable)])
   = Inr (JArray [JObject [(''name'', JString ''happy_echo''), (''pid'', JString ''8'')]],
          [FailedToOpen ''7.json''])"
    using listing_skips_unopenable_fails_on_unparsable
      [of None "[(''7.json'', Unopenable),
            (''8.json'', Contents (JObject [(''name'', JString ''happy_echo'')])),
            (''notes.txt'', Unparsable)]"]
    by (simp add: get_all_running_processes_info_def readable_def open_failures_def
        extension_def replace_extension_def)
next
  have "(''9.json'', Unparsable) \<in> set [(''8.json'', Contents (JObject [(''name'', JString ''happy_echo'')])),
                 (''9.json'', Unparsable)] \<and> extension ''9.json'' = ''.json''"
    by (simp add: extension_def)
  then show "isl (get_all_running_processes_info None
          (Some [(''8.json'', Contents (JObject [(''name'', JString ''happy_echo'')])),
                 (''9.json'', Unparsable)]))"
    using listing_skips_unopenable_fails_on_unparsable
      [of None "[(''8.json'', Contents (JObject [(''name'', JString ''happy_echo'')])),
                 (''9.json'', Unparsable)]"]
    by blast
qed

text \<open>
  C3 as stated fails: with one record file that does not parse beside a good one, the
  listing returns no record at all but ends with the parser's exception.
\<close>

theorem listing_fails_on_corrupt_file:
  "get_all_running_processes_info None
     (Some [(''7.json'', Unparsable),
            (''8.json'', Contents (JObject [(''name'', JString ''happy_echo'')]))])
   = Inl (ParseError ''7.json'')"
  by (simp add: get_all_running_processes_info_def extension_def)

lemma records_of_Cons: "records_of (x # es) = entry_record x @ records_of es"
  by (simp add: records_of_def)

lemma json_push_back_listing:
  "is_listing a \<Longrightarrow> \<exists>j. json_push_back a r = Inr j \<and> json_elements j = json_elements a @ [r] \<and> is_listing j"
  by (cases a) simp_all


lemma list_entries_listable:
  assumes "listable es" "is_listing a"
  shows "\<exists>j. list_entries None es (a, w) = Inr (j, w @ open_failures es)
           \<and> json_elements j = json_elements a @ records_of es \<and> is_listing j"
  using assms
proof (induction es arbitrary: a w)
  case Nil
  then show ?case by (simp add: open_failures_def records_of_def)
next
  case (Cons x es)
  obtain n f where x: "x = (n, f)" by (cases x)
  from Cons.prems have les: "listable es" and lx: "extension n \<noteq> ''.json'' \<or> listable_file f"
    by (simp_all add: listable_def x)
  show ?case
  proof (cases "extension n = ''.json''")
    case False
    have "entry_record (n, f) = []" using False by (cases f) simp_all
    then show ?thesis
      using Cons.IH [OF les Cons.prems(2), of w] False
      by (simp add: x open_failures_Cons records_of_Cons)
  next
    case True
    with lx have lf: "listable_file f" by simp
    show ?thesis
    proof (cases f)
      case Unopenable
      then show ?thesis
        using Cons.IH [OF les Cons.prems(2), of "w @ [FailedToOpen n]"] True
        by (simp add: x open_failures_Cons records_of_Cons)
    next
      case Unparsable
      then show ?thesis using lf by simp
    next
      case (Contents c)
      then obtain r where r: "json_set c ''pid'' (JString (replace_extension n)) = Inr r"
        using lf by (cases c) simp_all
      obtain a' where a': "json_push_back a r = Inr a'"
        "json_elements a' = json_elements a @ [r]" "is_listing a'"
        using json_push_back_listing [OF Cons.prems(2)] by blast
      show ?thesis
        using Cons.IH [OF les a'(3), of w] True Contents r a'(1,2)
        by (simp add: x open_failures_Cons records_of_Cons)
    qed
  qed
qed


lemma registered_names_iff:
  "nm \<in> set (registered_names es)
     \<longleftrightarrow> (\<exists>r \<in> set (records_of es). json_lookup r ''name'' = Some (JString nm))"
proof
  assume "nm \<in> set (registered_names es)"
  then show "\<exists>r \<in> set (records_of es). json_lookup r ''name'' = Some (JString nm)"
    by (auto simp: registered_names_def split: option.splits json.splits)
next
  assume "\<exists>r \<in> set (records_of es). json_lookup r ''name'' = Some (JString nm)"
  then obtain r where "r \<in> set (records_of es)" "json_lookup r ''name'' = Some (JString nm)"
    by blast
  then show "nm \<in> set (registered_names es)"
    by (force simp: registered_names_def)
qed


lemma location_extension: "extension (location pid) = ''.json''"
  unfolding location_def by (rule extension_json [OF to_string_not_Nil to_string_no_dot])

lemma location_replace_extension: "replace_extension (location pid) = to_string pid"
  using location_extension [of pid] by (simp add: replace_extension_def location_def)

lemma json_file_name:
  assumes "extension n = ''.json''" "replace_extension n = to_string pid"
  shows "n = location pid"
  using extension_split [OF assms(1)] assms(2) by (simp add: location_def)

lemma entry_record_cases:
  "entry_record (n, f) = [] \<or>
   (extension n = ''.json'' \<and>
    (\<exists>c r. f = Contents c \<and> json_set c ''pid'' (JString (replace_extension n)) = Inr r
           \<and> entry_record (n, f) = [r]))"
proof (cases "extension n = ''.json''")
  case False
  then show ?thesis by (cases f) simp_all
next
  case True
  show ?thesis
  proof (cases f)
    case (Contents c)
    then show ?thesis using True
      by (cases "json_set c ''pid'' (JString (replace_extension n))") simp_all
  qed simp_all
qed

lemma json_set_lookup: "json_set c k v = Inr r \<Longrightarrow> json_lookup r k = Some v"
  by (cases c) (auto simp: update_conv')

lemma entry_record_pid:
  assumes "r \<in> set (entry_record (n, f))"
  shows "extension n = ''.json'' \<and> json_lookup r ''pid'' = Some (JString (replace_extension n))"
  using entry_record_cases [of n f] assms json_set_lookup by fastforce

lemma filter_records_of:
  "filter (\<lambda>r. json_lookup r ''pid'' = Some (JString (to_string pid))) (records_of es)
     = records_of (filter (\<lambda>(n, f). n = location pid) es)"
proof (induction es)
  case Nil
  show ?case by (simp add: records_of_def)
next
  case (Cons x es)
  obtain n f where x: "x = (n, f)" by (cases x)
  show ?case
  proof (cases "n = location pid")
    case True
    have "\<forall>r \<in> set (entry_record (n, f)). json_lookup r ''pid'' = Some (JString (to_string pid))"
      using entry_record_pid [of _ n f] True location_replace_extension [of pid] by auto
    then have "filter (\<lambda>r. json_lookup r ''pid'' = Some (JString (to_string pid))) (entry_record (n, f))
                 = entry_record (n, f)"
      by (simp add: filter_id_conv)
    then show ?thesis using True Cons.IH by (simp add: x records_of_Cons)
  next
    case False
    have "\<forall>r \<in> set (entry_record (n, f)). json_lookup r ''pid'' \<noteq> Some (JString (to_string pid))"
    proof
      fix r assume "r \<in> set (entry_record (n, f))"
      then have e: "extension n = ''.json''"
        and p: "json_lookup r ''pid'' = Some (JString (replace_extension n))"
        using entry_record_pid by blast+
      show "json_lookup r ''pid'' \<noteq> Some (JString (to_string pid))"
        using json_file_name [OF e] False p by auto
    qed
    then have "filter (\<lambda>r. json_lookup r ''pid'' = Some (JString (to_string pid))) (entry_record (n, f)) = []"
      by (simp add: filter_empty_conv)
    then show ?thesis using False Cons.IH by (simp add: x records_of_Cons)
  qed
qed

lemma filter_update_key:
  "distinct (map fst es) \<Longrightarrow> filter (\<lambda>(n, f). n = k) (AList.update k v es) = [(k, v)]"
proof (induction es)
  case Nil
  show ?case by simp
next
  case (Cons x es)
  obtain n f where x: "x = (n, f)" by (cases x)
  show ?case
  proof (cases "n = k")
    case True
    then have "k \<notin> fst ` set es" using Cons.prems by (simp add: x)
    then have "filter (\<lambda>(n, f). n = k) es = []"
      by (force simp: filter_empty_conv)
    then show ?thesis using True by (simp add: x)
  next
    case False
    then show ?thesis using Cons by (simp add: x)
  qed
qed

lemma listable_update:
  "listable es \<Longrightarrow> listable_file v \<Longrightarrow> listable (AList.update k v es)"
  by (induction es) (auto simp: listable_def)

lemma records_of_Nil: "records_of [] = []"
  by (simp add: records_of_def)

lemma records_of_delete_subset:
  "set (records_of (AList.delete k es)) \<subseteq> set (records_of es)"
  by (induction es) (auto simp: records_of_Cons)

lemma filter_records_update:
  assumes "distinct (map fst es)"
    and "\<forall>r \<in> set (records_of (AList.delete k es)). \<not> P r"
    and "\<forall>r \<in> set (entry_record (k, v)). P r"
  shows "filter P (records_of (AList.update k v es)) = entry_record (k, v)"
  using assms(1,2)
proof (induction es)
  case Nil
  show ?case using assms(3) by (simp add: records_of_def filter_id_conv)
next
  case (Cons x es)
  obtain n f where x: "x = (n, f)" by (cases x)
  show ?case
  proof (cases "n = k")
    case True
    then have "k \<notin> fst ` set es" using Cons.prems(1) by (simp add: x)
    then have "AList.delete k es = es" by (simp add: delete_id)
    then have "\<forall>r \<in> set (records_of es). \<not> P r"
      using Cons.prems(2) True by (simp add: x)
    then have "filter P (records_of es) = []" by (simp add: filter_empty_conv)
    then show ?thesis using True assms(3) by (simp add: x records_of_Cons filter_id_conv)
  next
    case False
    then have "\<forall>r \<in> set (entry_record (n, f)). \<not> P r"
      and "\<forall>r \<in> set (records_of (AList.delete k es)). \<not> P r"
      using Cons.prems(2) by (simp_all add: x records_of_Cons)
    then show ?thesis using False Cons.IH Cons.prems(1)
      by (simp add: x records_of_Cons filter_empty_conv)
  qed
qed

lemma file_json_record:
  "entry_record (location pid, Contents (file_json name command prefix)) =
     [JObject [(''name'', JString name), (''command'', JArray (map JString command)),
               (''prefix'', JString prefix), (''pid'', JString (to_string pid))]]"
  by (simp add: location_extension location_replace_extension file_json_def)

lemma ctor_returns:
  assumes "use_lockfiles \<longrightarrow> lock = Held" and "opens"
    and "valid_utf8 name" and "list_all valid_utf8 command" and "valid_utf8 prefix"
  shows "ScopedProcFile_ctor pid use_lockfiles opens prefix name command lock (Some es)
           = (Inr (Some (AList.update (location pid)
                           (Contents (file_json name command prefix)) es)),
              RecordWritten (location pid) (file_json name command prefix) # released lock)"
  using assms by (simp add: ScopedProcFile_ctor_def dumpable_file_json)

lemma ctor_throws_on_invalid_utf8:
  assumes "use_lockfiles \<longrightarrow> lock = Held" and "opens"
    and "\<not> (valid_utf8 name \<and> list_all valid_utf8 command \<and> valid_utf8 prefix)"
  shows "ScopedProcFile_ctor pid use_lockfiles opens prefix name command lock (Some es)
           = (Inl (TypeError, Some (AList.update (location pid) Unparsable es)), released lock)"
  using assms by (auto simp: ScopedProcFile_ctor_def dumpable_file_json)

lemma written_record_listed:
  assumes "distinct (map fst es)" and "listable es"
  shows "\<exists>recs w.
     get_all_running_processes_info None
         (Some (AList.update (location pid) (Contents (file_json name command prefix)) es))
       = Inr (JArray recs, w)
     \<and> filter (\<lambda>r. json_lookup r ''pid'' = Some (JString (to_string pid))) recs
         = [JObject [(''name'', JString name), (''command'', JArray (map JString command)),
                     (''prefix'', JString prefix), (''pid'', JString (to_string pid))]]
     \<and> (name \<notin> set (registered_names (AList.delete (location pid) es)) \<longrightarrow>
          filter (\<lambda>r. json_lookup r ''name'' = Some (JString name)) recs
            = [JObject [(''name'', JString name), (''command'', JArray (map JString command)),
                        (''prefix'', JString prefix), (''pid'', JString (to_string pid))]])
     \<and> (es = [] \<longrightarrow>
          recs = [JObject [(''name'', JString name), (''command'', JArray (map JString command)),
                           (''prefix'', JString prefix), (''pid'', JString (to_string pid))]])"
proof -
  let ?v = "Contents (file_json name command prefix)"
  let ?es' = "AList.update (location pid) ?v es"
  let ?rec = "JObject [(''name'', JString name), (''command'', JArray (map JString command)),
                     (''prefix'', JString prefix), (''pid'', JString (to_string pid))]"
  have "listable_file ?v" by (simp add: file_json_def)
  then have "listable ?es'" using assms(2) by (rule listable_update [rotated])
  then obtain j where j: "list_entries None ?es' (JNull, []) = Inr (j, [] @ open_failures ?es')"
    "json_elements j = json_elements JNull @ records_of ?es'" "is_listing j"
    using list_entries_listable [of ?es' JNull "[]"] by auto
  have rec: "entry_record (location pid, ?v) = [?rec]" by (rule file_json_record)
  have pidf: "filter (\<lambda>r. json_lookup r ''pid'' = Some (JString (to_string pid))) (records_of ?es') = [?rec]"
    by (simp add: filter_records_of filter_update_key [OF assms(1)] records_of_Cons
        records_of_Nil rec del: entry_record.simps)
  then have "records_of ?es' \<noteq> []" by auto
  then obtain recs where recs: "j = JArray recs" "recs = records_of ?es'"
    using j(2,3) by (cases j) simp_all
  have namef: "filter (\<lambda>r. json_lookup r ''name'' = Some (JString name)) (records_of ?es') = [?rec]"
    if "name \<notin> set (registered_names (AList.delete (location pid) es))"
  proof -
    have h1: "\<forall>r \<in> set (records_of (AList.delete (location pid) es)).
             \<not> json_lookup r ''name'' = Some (JString name)"
      using that by (simp add: registered_names_iff)
    have "json_lookup ?rec ''name'' = Some (JString name)" by simp
    then have h2: "\<forall>r \<in> set (entry_record (location pid, ?v)). json_lookup r ''name'' = Some (JString name)"
      unfolding rec by simp
    have "filter (\<lambda>r. json_lookup r ''name'' = Some (JString name)) (records_of ?es')
            = entry_record (location pid, ?v)"
      by (rule filter_records_update [OF assms(1) h1 h2])
    then show ?thesis unfolding rec .
  qed
  have empty: "records_of ?es' = [?rec]" if "es = []"
    using that rec by (simp add: records_of_Cons records_of_Nil del: entry_record.simps)
  show ?thesis
    using j(1) recs pidf namef empty
    by (simp add: get_all_running_processes_info_def)
qed

lemma list_entries_truncated_record:
  assumes "listable es" and "is_listing a" and "extension k = ''.json''"
  shows "list_entries None (AList.update k Unparsable es) (a, w) = Inl (ParseError k)"
  using assms(1,2)
proof (induction es arbitrary: a w)
  case Nil
  show ?case using assms(3) by simp
next
  case (Cons x es)
  obtain n f where x: "x = (n, f)" by (cases x)
  from Cons.prems have les: "listable es" and lx: "extension n \<noteq> ''.json'' \<or> listable_file f"
    by (simp_all add: listable_def x)
  show ?case
  proof (cases "n = k")
    case True
    then show ?thesis using assms(3) by (simp add: x)
  next
    case other: False
    show ?thesis
    proof (cases "extension n = ''.json''")
      case False
      then show ?thesis
        using Cons.IH [OF les Cons.prems(2), of w] other by (simp add: x)
    next
      case True
      with lx have lf: "listable_file f" by simp
      show ?thesis
      proof (cases f)
        case Unopenable
        then show ?thesis
          using Cons.IH [OF les Cons.prems(2), of "w @ [FailedToOpen n]"] True other
          by (simp add: x)
      next
        case Unparsable
        then show ?thesis using lf by simp
      next
        case (Contents c)
        then obtain r where r: "json_set c ''pid'' (JString (replace_extension n)) = Inr r"
          using lf by (cases c) simp_all
        obtain a' where a': "json_push_back a r = Inr a'" "is_listing a'"
          using json_push_back_listing [OF Cons.prems(2)] by blast
        show ?thesis
          using Cons.IH [OF les a'(2), of w] True Contents r a'(1) other
          by (simp add: x)
      qed
    qed
  qed
qed

lemma listing_truncated_record:
  assumes "listable es"
  shows "get_all_running_processes_info None (Some (AList.update (location pid) Unparsable es))
           = Inl (ParseError (location pid))"
proof -
  have "is_listing JNull" by simp
  from list_entries_truncated_record [OF assms this location_extension]
  show ?thesis by (simp add: get_all_running_processes_info_def)
qed

text \<open>
  C7 (amended): the file opens, the lock is held when locking is in use, and the directory
  holds each file name once and only record files the listing can read. When the name,
  every word of the command and the prefix are valid UTF-8, the constructor returns and
  has written the record of process \<open>pid\<close> into the directory; the listing of that
  directory then returns exactly one record with that pid: the written \<open>name\<close>, \<open>command\<close>
  and \<open>prefix\<close> and, added by the listing, \<open>pid\<close>, the file's name without \<open>.json\<close>. It is
  the only record of that name when no other file holds the name, and the only record when
  the directory was empty. The stored value has no key \<open>pid\<close>. When one of them is not
  valid UTF-8, the constructor throws, writes no record and leaves a file that does not
  parse, on which the listing of the directory fails.
\<close>

theorem record_round_trip:
  assumes "distinct (map fst es)" and "listable es"
    and "use_lockfiles \<longrightarrow> lock = Held" and "opens"
  shows "(valid_utf8 name \<and> list_all valid_utf8 command \<and> valid_utf8 prefix \<longrightarrow>
     (\<exists>proc_dir' recs w.
       fst (ScopedProcFile_ctor pid use_lockfiles opens prefix name command lock (Some es))
         = Inr proc_dir'
       \<and> get_all_running_processes_info None proc_dir' = Inr (JArray recs, w)
       \<and> filter (\<lambda>r. json_lookup r ''pid'' = Some (JString (to_string pid))) recs
           = [JObject [(''name'', JString name), (''command'', JArray (map JString command)),
                       (''prefix'', JString prefix), (''pid'', JString (to_string pid))]]
       \<and> (name \<notin> set (registered_names (AList.delete (location pid) es)) \<longrightarrow>
            filter (\<lambda>r. json_lookup r ''name'' = Some (JString name)) recs
              = [JObject [(''name'', JString name), (''command'', JArray (map JString command)),
                          (''prefix'', JString prefix), (''pid'', JString (to_string pid))]])
       \<and> (es = [] \<longrightarrow>
            recs = [JObject [(''name'', JString name), (''command'', JArray (map JString command)),
                             (''prefix'', JString prefix), (''pid'', JString (to_string pid))]])
       \<and> proc_dir' = Some (AList.update (location pid)
                             (Contents (file_json name command prefix)) es)
       \<and> json_lookup (file_json name command prefix) ''pid'' = None))
   \<and> (\<not> (valid_utf8 name \<and> list_all valid_utf8 command \<and> valid_utf8 prefix) \<longrightarrow>
       ScopedProcFile_ctor pid use_lockfiles opens prefix name command lock (Some es)
         = (Inl (TypeError, Some (AList.update (location pid) Unparsable es)), released lock)
       \<and> records_written (released lock) = []
       \<and> get_all_running_processes_info None
            (Some (AList.update (location pid) Unparsable es))
           = Inl (ParseError (location pid)))"
proof (intro conjI impI)
  assume v: "valid_utf8 name \<and> list_all valid_utf8 command \<and> valid_utf8 prefix"
  have nopid: "json_lookup (file_json name command prefix) ''pid'' = None"
    by (simp add: file_json_def)
  have ret: "fst (ScopedProcFile_ctor pid use_lockfiles opens prefix name command lock (Some es))
       = Inr (Some (AList.update (location pid) (Contents (file_json name command prefix)) es))"
    using ctor_returns [OF assms(3,4), of name command prefix pid es] v by simp
  from written_record_listed [OF assms(1,2), of pid name command prefix]
  show "\<exists>proc_dir' recs w.
       fst (ScopedProcFile_ctor pid use_lockfiles opens prefix name command lock (Some es))
         = Inr proc_dir'
       \<and> get_all_running_processes_info None proc_dir' = Inr (JArray recs, w)
       \<and> filter (\<lambda>r. json_lookup r ''pid'' = Some (JString (to_string pid))) recs
           = [JObject [(''name'', JString name), (''command'', JArray (map JString command)),
                       (''prefix'', JString prefix), (''pid'', JString (to_string pid))]]
       \<and> (name \<notin> set (registered_names (AList.delete (location pid) es)) \<longrightarrow>
            filter (\<lambda>r. json_lookup r ''name'' = Some (JString name)) recs
              = [JObject [(''name'', JString name), (''command'', JArray (map JString command)),
                          (''prefix'', JString prefix), (''pid'', JString (to_string pid))]])
       \<and> (es = [] \<longrightarrow>
            recs = [JObject [(''name'', JString name), (''command'', JArray (map JString command)),
                             (''prefix'', JString prefix), (''pid'', JString (to_string pid))]])
       \<and> proc_dir' = Some (AList.update (location pid)
                             (Contents (file_json name command prefix)) es)
       \<and> json_lookup (file_json name command prefix) ''pid'' = None"
    using ret nopid by blast
next
  assume "\<not> (valid_utf8 name \<and> list_all valid_utf8 command \<and> valid_utf8 prefix)"
  then show "ScopedProcFile_ctor pid use_lockfiles opens prefix name command lock (Some es)
         = (Inl (TypeError, Some (AList.update (location pid) Unparsable es)), released lock)"
    by (rule ctor_throws_on_invalid_utf8 [OF assms(3,4)])
next
  show "records_written (released lock) = []"
    by (simp add: released_def records_written_def)
next
  show "get_all_running_processes_info None
            (Some (AList.update (location pid) Unparsable es))
           = Inl (ParseError (location pid))"
    by (rule listing_truncated_record [OF assms(2)])
qed

subsection \<open>A record written and listed\<close>

lemma to_string_4242: "to_string 4242 = ''4242''"
  by (simp add: to_string.simps digit_char_def)

lemma location_4242: "location 4242 = ''4242.json''"
  by (simp add: location_def to_string_4242)

theorem record_round_trip_witness:
  "distinct (map fst [(''17.json'', Contents (JObject [(''name'', JString ''curious_ls'')]))])
   \<and> listable [(''17.json'', Contents (JObject [(''name'', JString ''curious_ls'')]))]
   \<and> valid_utf8 ''happy_echo'' \<and> list_all valid_utf8 [''echo'', ''hi''] \<and> valid_utf8 ''/opt/env''
   \<and> fst (ScopedProcFile_ctor 4242 True True ''/opt/env'' ''happy_echo'' [''echo'', ''hi''] Held
            (Some [(''17.json'', Contents (JObject [(''name'', JString ''curious_ls'')]))]))
       = Inr (Some [(''17.json'', Contents (JObject [(''name'', JString ''curious_ls'')])),
                    (''4242.json'', Contents (JObject
                       [(''name'', JString ''happy_echo''),
                        (''command'', JArray [JString ''echo'', JString ''hi'']),
                        (''prefix'', JString ''/opt/env'')]))])
   \<and> (\<exists>recs w.
         get_all_running_processes_info None
           (Some [(''17.json'', Contents (JObject [(''name'', JString ''curious_ls'')])),
                  (''4242.json'', Contents (JObject
                     [(''name'', JString ''happy_echo''),
                      (''command'', JArray [JString ''echo'', JString ''hi'']),
                      (''prefix'', JString ''/opt/env'')]))])
           = Inr (JArray recs, w)
         \<and> filter (\<lambda>r. json_lookup r ''pid'' = Some (JString ''4242'')) recs
             = [JObject [(''name'', JString ''happy_echo''),
                         (''command'', JArray [JString ''echo'', JString ''hi'']),
                         (''prefix'', JString ''/opt/env''), (''pid'', JString ''4242'')]])
   \<and> \<not> (valid_utf8 [CHR 0xFF] \<and> list_all valid_utf8 [''echo'', ''hi'']
          \<and> valid_utf8 ''/opt/env'')
   \<and> ScopedProcFile_ctor 4242 True True ''/opt/env'' [CHR 0xFF] [''echo'', ''hi''] Held
         (Some [(''17.json'', Contents (JObject [(''name'', JString ''curious_ls'')]))])
       = (Inl (TypeError,
               Some [(''17.json'', Contents (JObject [(''name'', JString ''curious_ls'')])),
                     (''4242.json'', Unparsable)]), [LockReleased])
   \<and> get_all_running_processes_info None
         (Some [(''17.json'', Contents (JObject [(''name'', JString ''curious_ls'')])),
                (''4242.json'', Unparsable)])
       = Inl (ParseError ''4242.json'')"
proof -
  let ?es = "[(''17.json'', Contents (JObject [(''name'', JString ''curious_ls'')]))]"
  let ?es' = "[(''17.json'', Contents (JObject [(''name'', JString ''curious_ls'')])),
                  (''4242.json'', Contents (JObject
                     [(''name'', JString ''happy_echo''),
                      (''command'', JArray [JString ''echo'', JString ''hi'']),
                      (''prefix'', JString ''/opt/env'')]))]"
  have h1: "distinct (map fst ?es)" by simp
  have h2: "listable ?es" by (simp add: listable_def)
  have h3: "True \<longrightarrow> Held = Held" by simp
  have h5: "valid_utf8 ''happy_echo''" by (simp add: ascii_valid_utf8 ascii_def)
  have h6: "list_all valid_utf8 [''echo'', ''hi'']" by (simp add: ascii_valid_utf8 ascii_def)
  have h7: "valid_utf8 ''/opt/env''" by (simp add: ascii_valid_utf8 ascii_def)
  have upd: "AList.update (location 4242)
               (Contents (file_json ''happy_echo'' [''echo'', ''hi''] ''/opt/env'')) ?es = ?es'"
    by (simp add: location_4242 file_json_def)
  from record_round_trip [OF h1 h2 h3 TrueI, of "''happy_echo''" "[''echo'', ''hi'']"
      "''/opt/env''" 4242] h5 h6 h7
  obtain proc_dir' recs w where
    c: "fst (ScopedProcFile_ctor 4242 True True ''/opt/env'' ''happy_echo'' [''echo'', ''hi''] Held
              (Some ?es)) = Inr proc_dir'"
    and l: "get_all_running_processes_info None proc_dir' = Inr (JArray recs, w)"
    and f: "filter (\<lambda>r. json_lookup r ''pid'' = Some (JString (to_string 4242))) recs
             = [JObject [(''name'', JString ''happy_echo''),
                         (''command'', JArray (map JString [''echo'', ''hi''])),
                         (''prefix'', JString ''/opt/env''), (''pid'', JString (to_string 4242))]]"
    and d: "proc_dir' = Some (AList.update (location 4242)
               (Contents (file_json ''happy_echo'' [''echo'', ''hi''] ''/opt/env'')) ?es)"
    by blast
  have d': "proc_dir' = Some ?es'" unfolding d upd ..
  have "\<exists>recs w.
         get_all_running_processes_info None (Some ?es') = Inr (JArray recs, w)
         \<and> filter (\<lambda>r. json_lookup r ''pid'' = Some (JString ''4242'')) recs
             = [JObject [(''name'', JString ''happy_echo''),
                         (''command'', JArray [JString ''echo'', JString ''hi'']),
                         (''prefix'', JString ''/opt/env''), (''pid'', JString ''4242'')]]"
    using l f unfolding to_string_4242 d' by (intro exI [of _ recs] exI [of _ w]) simp
  moreover have inv: "\<not> (valid_utf8 [CHR 0xFF] \<and> list_all valid_utf8 [''echo'', ''hi'']
          \<and> valid_utf8 ''/opt/env'')"
    by (simp add: valid_utf8_def utf8_step_def)
  moreover have "ScopedProcFile_ctor 4242 True True ''/opt/env'' [CHR 0xFF] [''echo'', ''hi''] Held
         (Some ?es)
       = (Inl (TypeError,
               Some [(''17.json'', Contents (JObject [(''name'', JString ''curious_ls'')])),
                     (''4242.json'', Unparsable)]), [LockReleased])
   \<and> get_all_running_processes_info None
         (Some [(''17.json'', Contents (JObject [(''name'', JString ''curious_ls'')])),
                (''4242.json'', Unparsable)])
       = Inl (ParseError ''4242.json'')"
    using record_round_trip [OF h1 h2 h3 TrueI, of "[CHR 0xFF]" "[''echo'', ''hi'']"
      "''/opt/env''" 4242] inv
    by (simp add: location_4242 released_def)
  ultimately show ?thesis
    using h1 h2 h5 h6 h7 c [unfolded d'] by blast
qed

text \<open>
  C7 as stated fails: a command word that is the single byte \<open>E9\<close> (an accented letter in
  Latin-1) is not valid UTF-8. The constructor opens the file, throws while it writes the
  record, and leaves a file that does not parse: listing the registry then fails.
\<close>

theorem record_with_invalid_utf8_is_not_written:
  "ScopedProcFile_ctor 4242 True True ''/opt/env'' ''happy_echo'' [''echo'', [CHR 0xE9]] Held
     (Some [])
     = (Inl (TypeError, Some [(''4242.json'', Unparsable)]), [LockReleased])
   \<and> get_all_running_processes_info None (Some [(''4242.json'', Unparsable)])
     = Inl (ParseError ''4242.json'')"
proof -
  have "\<not> (valid_utf8 ''happy_echo'' \<and> list_all valid_utf8 [''echo'', [CHR 0xE9]]
            \<and> valid_utf8 ''/opt/env'')"
    using latin1_byte_invalid by simp
  from ctor_throws_on_invalid_utf8 [OF _ TrueI this, of True Held 4242 "[]"]
  show ?thesis
    by (simp add: location_4242 released_def get_all_running_processes_info_def extension_def)
qed

subsection \<open>The name generator, one iteration at a time\<close>

lemma name_loop_prefix_free:
  assumes "prefixes_bag st \<noteq> []"
    and "is_process_name_running d (format_name (prefixes_bag st ! picked_prefix st) sel) = Inr False"
  shows "name_loop d p sel st
           = Some (Inr (format_name (prefixes_bag st ! picked_prefix st) sel, pop_prefix st))"
  using assms by (subst name_loop.simps) simp

lemma name_loop_prefix_taken:
  assumes "prefixes_bag st \<noteq> []"
    and "is_process_name_running d (format_name (prefixes_bag st ! picked_prefix st) sel) = Inr True"
  shows "name_loop d p sel st = name_loop d p sel (pop_prefix st)"
  using assms by (subst name_loop.simps) simp

lemma name_loop_alt_name:
  assumes "prefixes_bag st = []" and "alt_names st \<noteq> []"
  shows "name_loop d p sel st = name_loop d p (alt_names st ! picked_alt_name st) (pop_alt_name st)"
  using assms by (subst name_loop.simps) simp





subsection \<open>The fail-safe branch\<close>


















subsection \<open>Emptying and refilling the bag\<close>

lemma random_int_bounded: "fst (random_int 0 (n - 1) r) < n" if "0 < n"
  using that by (simp add: random_int_def)

lemma picked_prefix_less: "prefixes_bag st \<noteq> [] \<Longrightarrow> picked_prefix st < length (prefixes_bag st)"
  unfolding picked_prefix_def by (rule random_int_bounded) simp

lemma picked_alt_name_less: "alt_names st \<noteq> [] \<Longrightarrow> picked_alt_name st < length (alt_names st)"
  unfolding picked_alt_name_def by (rule random_int_bounded) simp

lemma length_erase: "i < length xs \<Longrightarrow> length (erase i xs) = length xs - 1"
  by (auto simp: erase_def)

lemma pop_prefix_pools:
  "prefixes_bag st \<noteq> [] \<Longrightarrow> length (prefixes_bag (pop_prefix st)) = length (prefixes_bag st) - 1"
  "alt_names (pop_prefix st) = alt_names st"
  by (simp_all add: pop_prefix_def length_erase picked_prefix_less)

lemma pop_alt_name_pools:
  "prefixes_bag (pop_alt_name st) = prefixes"
  "alt_names (pop_alt_name st) = erase (picked_alt_name st) (alt_names st)"
  by (simp_all add: pop_alt_name_def)

lemma prefixes_not_Nil: "prefixes \<noteq> []"
  by (simp add: prefixes_def)

lemma generate_first_candidate:
  assumes "program_name \<noteq> []" and "prefixes_bag st \<noteq> []"
    and "is_process_name_running d
           (format_name (prefixes_bag st ! picked_prefix st) program_name) = Inr False"
  shows "generate_unique_process_name d program_name st
           = Some (Inr (format_name (prefixes_bag st ! picked_prefix st) program_name,
                        pop_prefix st))"
  using name_loop_prefix_free [OF assms(2,3), of program_name] assms(1)
  by (simp add: generate_unique_process_name_def)

lemma resolve_each_at_once_pools:
  "resolve_each_at_once d bs st0 = Some st \<Longrightarrow>
     length (prefixes_bag st) + length bs = length (prefixes_bag st0)
     \<and> alt_names st = alt_names st0"
proof (induction bs arbitrary: st0)
  case Nil
  then show ?case by simp
next
  case (Cons b bs)
  from Cons.prems have bag: "prefixes_bag st0 \<noteq> []"
    and free: "is_process_name_running d
           (format_name (prefixes_bag st0 ! picked_prefix st0) b) = Inr False"
    by (auto split: if_splits)
  show ?case
  proof (cases "b = []")
    case True
    then show ?thesis using Cons.prems bag free
      by (simp add: generate_unique_process_name_def)
  next
    case False
    have "generate_unique_process_name d b st0
            = Some (Inr (format_name (prefixes_bag st0 ! picked_prefix st0) b, pop_prefix st0))"
      by (rule generate_first_candidate [OF False bag free])
    then have "resolve_each_at_once d bs (pop_prefix st0) = Some st"
      using Cons.prems bag free by simp
    then have "length (prefixes_bag st) + length bs = length (prefixes_bag (pop_prefix st0))
       \<and> alt_names st = alt_names (pop_prefix st0)"
      by (rule Cons.IH)
    then show ?thesis using bag by (simp add: pop_prefix_pools)
  qed
qed

text \<open>
  C4: after as many resolutions as the bag holds prefixes, each returning its first
  candidate, the bag is empty and the alternative names are untouched. The next
  resolution then erases one alternative name at a random index, refills the bag with
  all the prefixes and goes round the loop with that name in place of the program's: its
  next candidate is a prefix of the full bag joined to the alternative name, returned if
  it is not in use.
\<close>

theorem noun_fallback_after_bag_is_emptied:
  assumes "resolve_each_at_once d bs st0 = Some st"
    and "length bs = length (prefixes_bag st0)"
    and "alt_names st0 \<noteq> []"
    and "program_name \<noteq> []"
  shows "prefixes_bag st = [] \<and> alt_names st = alt_names st0
     \<and> generate_unique_process_name d program_name st
         = name_loop d program_name (alt_names st ! picked_alt_name st) (pop_alt_name st)
     \<and> picked_alt_name st < length (alt_names st)
     \<and> alt_names (pop_alt_name st) = erase (picked_alt_name st) (alt_names st)
     \<and> length (alt_names (pop_alt_name st)) = length (alt_names st) - 1
     \<and> prefixes_bag (pop_alt_name st) = prefixes
     \<and> (is_process_name_running d
           (format_name (prefixes ! picked_prefix (pop_alt_name st))
              (alt_names st ! picked_alt_name st)) = Inr False
         \<longrightarrow> generate_unique_process_name d program_name st
             = Some (Inr (format_name (prefixes ! picked_prefix (pop_alt_name st))
                            (alt_names st ! picked_alt_name st),
                          pop_prefix (pop_alt_name st))))
     \<and> (is_process_name_running d
           (format_name (prefixes ! picked_prefix (pop_alt_name st))
              (alt_names st ! picked_alt_name st)) = Inr True
         \<longrightarrow> generate_unique_process_name d program_name st
             = name_loop d program_name (alt_names st ! picked_alt_name st)
                 (pop_prefix (pop_alt_name st)))"
proof -
  have pools: "prefixes_bag st = []" "alt_names st = alt_names st0"
    using resolve_each_at_once_pools [OF assms(1)] assms(2) by simp_all
  then have alt: "alt_names st \<noteq> []" using assms(3) by simp
  have gen: "generate_unique_process_name d program_name st
         = name_loop d program_name (alt_names st ! picked_alt_name st) (pop_alt_name st)"
    using name_loop_alt_name [OF pools(1) alt, of d program_name program_name] assms(4)
    by (simp add: generate_unique_process_name_def)
  have less: "picked_alt_name st < length (alt_names st)"
    by (rule picked_alt_name_less [OF alt])
  have refilled: "prefixes_bag (pop_alt_name st) \<noteq> []"
    by (simp add: pop_alt_name_pools prefixes_not_Nil)
  have free: "generate_unique_process_name d program_name st
             = Some (Inr (format_name (prefixes ! picked_prefix (pop_alt_name st))
                            (alt_names st ! picked_alt_name st),
                          pop_prefix (pop_alt_name st)))"
    if "is_process_name_running d
           (format_name (prefixes ! picked_prefix (pop_alt_name st))
              (alt_names st ! picked_alt_name st)) = Inr False"
    using name_loop_prefix_free [OF refilled, of d "alt_names st ! picked_alt_name st" program_name]
      that gen by (simp add: pop_alt_name_pools)
  have taken: "generate_unique_process_name d program_name st
             = name_loop d program_name (alt_names st ! picked_alt_name st)
                 (pop_prefix (pop_alt_name st))"
    if "is_process_name_running d
           (format_name (prefixes ! picked_prefix (pop_alt_name st))
              (alt_names st ! picked_alt_name st)) = Inr True"
    using name_loop_prefix_taken [OF refilled, of d "alt_names st ! picked_alt_name st" program_name]
      that gen by (simp add: pop_alt_name_pools)
  show ?thesis
    using pools gen less free taken
    by (simp add: pop_alt_name_pools length_erase)
qed

lemma empty_registry_not_running: "is_process_name_running (Some []) name = Inr False"
  by (simp add: is_process_name_running_def get_all_running_processes_info_def)

lemma pop_prefix_rng: "rng (pop_prefix st) = stl (rng st)"
  by (simp add: pop_prefix_def random_int_def)

lemma resolve_each_at_once_rng:
  "resolve_each_at_once d bs st0 = Some st \<Longrightarrow> rng st = sdrop (length bs) (rng st0)"
proof (induction bs arbitrary: st0)
  case Nil
  then show ?case by simp
next
  case (Cons b bs)
  from Cons.prems have bag: "prefixes_bag st0 \<noteq> []"
    and free: "is_process_name_running d
           (format_name (prefixes_bag st0 ! picked_prefix st0) b) = Inr False"
    by (auto split: if_splits)
  show ?case
  proof (cases "b = []")
    case True
    then show ?thesis using Cons.prems bag free
      by (simp add: generate_unique_process_name_def)
  next
    case False
    have "generate_unique_process_name d b st0
            = Some (Inr (format_name (prefixes_bag st0 ! picked_prefix st0) b, pop_prefix st0))"
      by (rule generate_first_candidate [OF False bag free])
    then have "resolve_each_at_once d bs (pop_prefix st0) = Some st"
      using Cons.prems bag free by simp
    then have "rng st = sdrop (length bs) (rng (pop_prefix st0))"
      by (rule Cons.IH)
    then show ?thesis by (simp add: pop_prefix_rng)
  qed
qed

lemma resolve_each_at_once_empty_registry:
  "\<forall>b \<in> set bs. b \<noteq> [] \<Longrightarrow> length bs \<le> length (prefixes_bag st0) \<Longrightarrow>
     \<exists>st. resolve_each_at_once (Some []) bs st0 = Some st"
proof (induction bs arbitrary: st0)
  case Nil
  then show ?case by simp
next
  case (Cons b bs)
  then have b: "b \<noteq> []" and bag: "prefixes_bag st0 \<noteq> []" by auto
  have gen: "generate_unique_process_name (Some []) b st0
            = Some (Inr (format_name (prefixes_bag st0 ! picked_prefix st0) b, pop_prefix st0))"
    by (rule generate_first_candidate [OF b bag empty_registry_not_running])
  have "length bs \<le> length (prefixes_bag (pop_prefix st0))"
    using Cons.prems(2) bag by (simp add: pop_prefix_pools)
  then obtain st where "resolve_each_at_once (Some []) bs (pop_prefix st0) = Some st"
    using Cons.IH [of "pop_prefix st0"] Cons.prems(1) by auto
  then show ?case using gen bag by (simp add: empty_registry_not_running)
qed

theorem noun_fallback_after_bag_is_emptied_witness:
  "\<exists>st. resolve_each_at_once (Some []) (replicate 34 ''echo'') (initial_statics (sconst 0)) = Some st
      \<and> prefixes_bag st = []
      \<and> alt_names st
          = [''program'', ''application'', ''app'', ''code'', ''blob'', ''binary'', ''script'']
      \<and> alt_names (pop_alt_name st)
          = [''application'', ''app'', ''code'', ''blob'', ''binary'', ''script'']
      \<and> prefixes_bag (pop_alt_name st) = prefixes
      \<and> map_option (map_sum id fst) (generate_unique_process_name (Some []) ''echo'' st)
          = Some (Inr ''curious_program'')"
proof -
  let ?st0 = "initial_statics (sconst 0)"
  have len: "length (prefixes_bag ?st0) = 34"
    by (simp add: initial_statics_def prefixes_def)
  then have "\<exists>st. resolve_each_at_once (Some []) (replicate 34 ''echo'') ?st0 = Some st"
    by (intro resolve_each_at_once_empty_registry) simp_all
  then obtain st where h1: "resolve_each_at_once (Some []) (replicate 34 ''echo'') ?st0 = Some st"
    by blast
  have h2: "length (replicate 34 ''echo'') = length (prefixes_bag ?st0)"
    using len by simp
  have h3: "alt_names ?st0 \<noteq> []" by (simp add: initial_statics_def)
  have h4: "''echo'' \<noteq> []" by simp
  have r: "rng st = sconst 0"
    using resolve_each_at_once_rng [OF h1] by (simp add: initial_statics_def)
  note C = noun_fallback_after_bag_is_emptied [OF h1 h2 h3 h4]
  have alt: "alt_names st
          = [''program'', ''application'', ''app'', ''code'', ''blob'', ''binary'', ''script'']"
    using C by (simp add: initial_statics_def)
  have pa: "picked_alt_name st = 0"
    by (simp add: picked_alt_name_def random_int_def r)
  have alt': "alt_names (pop_alt_name st)
          = [''application'', ''app'', ''code'', ''blob'', ''binary'', ''script'']"
    using C by (simp add: alt pa erase_def)
  have rng': "rng (pop_alt_name st) = sconst 0"
    by (simp add: pop_alt_name_def random_int_def r)
  have pp: "picked_prefix (pop_alt_name st) = 0"
    by (simp add: picked_prefix_def random_int_def rng')
  have first: "prefixes ! 0 = ''curious''" by (simp add: prefixes_def)
  have "generate_unique_process_name (Some []) ''echo'' st
             = Some (Inr (format_name (prefixes ! picked_prefix (pop_alt_name st))
                            (alt_names st ! picked_alt_name st),
                          pop_prefix (pop_alt_name st)))"
    using C empty_registry_not_running by blast
  then have "map_option (map_sum id fst) (generate_unique_process_name (Some []) ''echo'' st)
          = Some (Inr ''curious_program'')"
    by (simp add: pp pa alt first format_name_def)
  then show ?thesis using h1 C alt alt' by blast
qed

subsection \<open>One file name per process\<close>

lemma digit_char_inj:
  assumes "d < 10" "e < 10" "digit_char d = digit_char e"
  shows "d = e"
proof -
  have "distinct ''0123456789''" by simp
  then show ?thesis
    using assms nth_eq_iff_index_eq [of "''0123456789''" d e]
    by (simp add: digit_char_def)
qed

lemma to_string_small: "n < 10 \<Longrightarrow> to_string n = [digit_char n]"
  by (subst to_string.simps) simp

lemma to_string_large:
  "\<not> n < 10 \<Longrightarrow> to_string n = to_string (n div 10) @ [digit_char (n mod 10)]"
  by (subst to_string.simps) simp

lemma to_string_inj: "to_string n = to_string m \<Longrightarrow> n = m"
proof (induction n arbitrary: m rule: to_string.induct)
  case (1 n)
  show ?case
  proof (cases "n < 10")
    case True
    note n = this
    show ?thesis
    proof (cases "m < 10")
      case True
      then show ?thesis
        using "1.prems" n digit_char_inj [of n m] by (simp add: to_string_small)
    next
      case False
      then show ?thesis
        using "1.prems" n to_string_not_Nil [of "m div 10"]
        by (simp add: to_string_small to_string_large)
    qed
  next
    case False
    note n = this
    show ?thesis
    proof (cases "m < 10")
      case True
      then show ?thesis
        using "1.prems" n to_string_not_Nil [of "n div 10"]
        by (simp add: to_string_small to_string_large)
    next
      case False
      then have "to_string (n div 10) = to_string (m div 10)"
        and d: "digit_char (n mod 10) = digit_char (m mod 10)"
        using "1.prems" n by (simp_all add: to_string_large)
      then have "n div 10 = m div 10" using "1.IH" [OF n] by blast
      moreover have "n mod 10 = m mod 10"
        using digit_char_inj [OF _ _ d] by simp
      ultimately show ?thesis
        by (metis div_mult_mod_eq)
    qed
  qed
qed

lemma location_inj: "location p = location q \<Longrightarrow> p = q"
  by (simp add: location_def to_string_inj)

subsection \<open>Resolving and registering, one process after the other\<close>

lemma update_new_key: "k \<notin> fst ` set es \<Longrightarrow> AList.update k v es = es @ [(k, v)]"
  by (induction es) auto

lemma records_of_append: "records_of (xs @ ys) = records_of xs @ records_of ys"
  by (simp add: records_of_def)

lemma registered_names_append:
  "registered_names (xs @ ys) = registered_names xs @ registered_names ys"
  by (simp add: registered_names_def records_of_append)


lemma well_formed_append: "well_formed (xs @ ys) \<longleftrightarrow> well_formed xs \<and> well_formed ys"
  by (simp add: well_formed_def)

lemma well_formed_written:
  "well_formed [(location pid, Contents (file_json name command prefix))]"
  by (simp add: well_formed_def file_json_def)






lemma update_holds_new_file: "(k, v) \<in> set (AList.update k v es)"
  by (induction es) auto











lemma initial_first_prefix:
  "prefixes_bag (initial_statics (sconst 0)) \<noteq> []"
  "prefixes_bag (initial_statics (sconst 0)) ! picked_prefix (initial_statics (sconst 0))
     = ''curious''"
  by (simp_all add: initial_statics_def picked_prefix_def random_int_def prefixes_def)












subsection \<open>Reading traces\<close>

lemma records_written_simps:
  "records_written [] = []"
  "records_written (tr @ tr') = records_written tr @ records_written tr'"
  "records_written (RecordWritten loc j # tr) = (loc, j) # records_written tr"
  "records_written (Warn w # tr) = records_written tr"
  "records_written (LockAcquired # tr) = records_written tr"
  "records_written (LockReleased # tr) = records_written tr"
  "records_written (RecordRemoved loc # tr) = records_written tr"
  "records_written (Forked pid # tr) = records_written tr"
  "records_written (ChildStarted cmd pid # tr) = records_written tr"
  "records_written (StartFailed # tr) = records_written tr"
  "records_written (HandlerInstalled # tr) = records_written tr"
  "records_written (StopRequested sa # tr) = records_written tr"
  "records_written (Drained # tr) = records_written tr"
  "records_written (map Warn ws) = []"
  by (simp_all add: records_written_def)

lemma children_started_simps:
  "children_started [] = []"
  "children_started (tr @ tr') = children_started tr @ children_started tr'"
  "children_started (ChildStarted cmd pid # tr) = (cmd, pid) # children_started tr"
  "children_started (Warn w # tr) = children_started tr"
  "children_started (LockAcquired # tr) = children_started tr"
  "children_started (LockReleased # tr) = children_started tr"
  "children_started (RecordWritten loc j # tr) = children_started tr"
  "children_started (RecordRemoved loc # tr) = children_started tr"
  "children_started (Forked pid # tr) = children_started tr"
  "children_started (StartFailed # tr) = children_started tr"
  "children_started (HandlerInstalled # tr) = children_started tr"
  "children_started (StopRequested sa # tr) = children_started tr"
  "children_started (Drained # tr) = children_started tr"
  "children_started (map Warn ws) = []"
  by (simp_all add: children_started_def)

lemma stop_requests_simps:
  "stop_requests [] = []"
  "stop_requests (tr @ tr') = stop_requests tr @ stop_requests tr'"
  "stop_requests (StopRequested sa # tr) = sa # stop_requests tr"
  "stop_requests (Warn w # tr) = stop_requests tr"
  "stop_requests (LockAcquired # tr) = stop_requests tr"
  "stop_requests (LockReleased # tr) = stop_requests tr"
  "stop_requests (RecordWritten loc j # tr) = stop_requests tr"
  "stop_requests (RecordRemoved loc # tr) = stop_requests tr"
  "stop_requests (Forked pid # tr) = stop_requests tr"
  "stop_requests (ChildStarted cmd pid # tr) = stop_requests tr"
  "stop_requests (StartFailed # tr) = stop_requests tr"
  "stop_requests (HandlerInstalled # tr) = stop_requests tr"
  "stop_requests (Drained # tr) = stop_requests tr"
  "stop_requests (map Warn ws) = []"
  by (simp_all add: stop_requests_def)

lemma lock_events_quiet:
  "records_written (acquired lock) = []" "records_written (released lock) = []"
  "children_started (acquired lock) = []" "children_started (released lock) = []"
  "stop_requests (acquired lock) = []" "stop_requests (released lock) = []"
  by (simp_all add: acquired_def released_def records_written_simps children_started_simps
      stop_requests_simps)

lemma create_directories_quiet:
  "records_written (snd (create_directories env d)) = []"
  "children_started (snd (create_directories env d)) = []"
  "stop_requests (snd (create_directories env d)) = []"
  by (simp_all add: create_directories_def records_written_simps children_started_simps
      stop_requests_simps split: option.splits)

lemma daemonize_quiet:
  "records_written (snd (daemonize env)) = []"
  "children_started (snd (daemonize env)) = []"
  "stop_requests (snd (daemonize env)) = []"
  by (simp_all add: daemonize_def records_written_simps children_started_simps
      stop_requests_simps split: option.splits)

lemma supervise_projections:
  "records_written (snd (supervise env opt wrapped)) = []"
  "children_started (snd (supervise env opt wrapped))
     = (case child_pid env of None \<Rightarrow> [] | Some pid \<Rightarrow> [(wrapped, pid)])"
  "stop_requests (snd (supervise env opt wrapped))
     = (case child_pid env of
          None \<Rightarrow> []
        | Some pid \<Rightarrow> (if sigterm_arrives env then [sigterm_stop_actions] else []) @ [stop opt])"
  by (simp_all add: supervise_def records_written_simps children_started_simps
      stop_requests_simps split: option.splits)

lemma ctor_projections:
  "children_started (snd (ScopedProcFile_ctor pid ul opens prefix name cmd lock d)) = []"
  "stop_requests (snd (ScopedProcFile_ctor pid ul opens prefix name cmd lock d)) = []"
  "records_written (snd (ScopedProcFile_ctor pid ul opens prefix name cmd lock d))
     = (case fst (ScopedProcFile_ctor pid ul opens prefix name cmd lock d) of
          Inl e \<Rightarrow> []
        | Inr d' \<Rightarrow> [(location pid, file_json name cmd prefix)])"
  by (simp_all add: ScopedProcFile_ctor_def records_written_simps children_started_simps
      stop_requests_simps lock_events_quiet split: option.splits)

lemma dtor_projections:
  "ScopedProcFile_dtor cfg loc d = Inr (d', evs) \<Longrightarrow>
     records_written evs = [] \<and> children_started evs = [] \<and> stop_requests evs = []"
  by (auto simp: ScopedProcFile_dtor_def records_written_simps children_started_simps
      stop_requests_simps lock_events_quiet split: sum.splits option.splits if_splits)

subsection \<open>The block, path by path\<close>

lemma block_lock_fails:
  assumes "lock_proc_dir (locking env) = Inl e"
  shows "block env pid d st cmd raw wrapped opt specific
           = \<lparr>result = Threw e, trace = [], registry = d, pools = st,
              registry_at_start = d\<rparr>"
  using assms by (simp add: block_def)

lemma block_name_never_returns:
  assumes "lock_proc_dir (locking env) = Inr lock"
    and "resolve_process_name d st cmd specific = None"
  shows "block env pid d st cmd raw wrapped opt specific
           = \<lparr>result = NeverReturns, trace = acquired lock, registry = d, pools = st,
              registry_at_start = d\<rparr>"
  using assms by (simp add: block_def)

lemma block_name_throws:
  assumes "lock_proc_dir (locking env) = Inr lock"
    and "resolve_process_name d st cmd specific = Some (Inl e)"
  shows "block env pid d st cmd raw wrapped opt specific
           = \<lparr>result = Threw e, trace = acquired lock @ released lock, registry = d, pools = st,
              registry_at_start = d\<rparr>"
  using assms by (simp add: block_def)

lemma block_untracked:
  assumes "lock_proc_dir (locking env) = Inr lock"
    and "resolve_process_name d st cmd specific = Some (Inr (name, cmd', st'))"
    and "\<not> (d \<noteq> None \<and> proc_dir_writable env)"
  shows "block env pid d st cmd raw wrapped opt specific
           = \<lparr>result = Returned (fst (supervise env opt wrapped)),
              trace = acquired lock @ snd (supervise env opt wrapped) @ released lock,
              registry = d, pools = st', registry_at_start = d\<rparr>"
  using assms by (auto simp: block_def)

lemma block_record_not_written:
  assumes "lock_proc_dir (locking env) = Inr lock"
    and "resolve_process_name d st cmd specific = Some (Inr (name, cmd', st'))"
    and "d \<noteq> None \<and> proc_dir_writable env"
    and "ScopedProcFile_ctor pid (locking env \<noteq> LockingDisabled) (pid_file_opens env)
           (target_prefix env) name raw lock d = (Inl (e, d1), evs)"
  shows "block env pid d st cmd raw wrapped opt specific
           = \<lparr>result = Threw e, trace = acquired lock @ evs, registry = d1, pools = st',
              registry_at_start = d1\<rparr>"
  using assms by (simp add: block_def)

lemma block_tracked:
  assumes "lock_proc_dir (locking env) = Inr lock"
    and "resolve_process_name d st cmd specific = Some (Inr (name, cmd', st'))"
    and "d \<noteq> None \<and> proc_dir_writable env"
    and "ScopedProcFile_ctor pid (locking env \<noteq> LockingDisabled) (pid_file_opens env)
           (target_prefix env) name raw lock d = (Inr d', evs)"
    and "ScopedProcFile_dtor (locking env) (location pid) d' = Inr (d'', devs)"
  shows "block env pid d st cmd raw wrapped opt specific
           = \<lparr>result = Returned (fst (supervise env opt wrapped)),
              trace = acquired lock @ evs @ snd (supervise env opt wrapped) @ devs,
              registry = d'', pools = st', registry_at_start = d'\<rparr>"
  using assms by (simp add: block_def)

lemma dtor_after_lock:
  "lock_proc_dir cfg = Inr lock \<Longrightarrow> \<exists>d' devs. ScopedProcFile_dtor cfg loc d = Inr (d', devs)"
  by (simp add: ScopedProcFile_dtor_def split: option.splits)

lemma block_records_written:
  assumes "(loc, j) \<in> set (records_written (trace (block env pid d st cmd raw wrapped opt specific)))"
  shows "loc = location pid
         \<and> (\<exists>name cmd' st'. resolve_process_name d st cmd specific = Some (Inr (name, cmd', st'))
                \<and> j = file_json name raw (target_prefix env))"
proof (cases "lock_proc_dir (locking env)")
  case (Inl e)
  then show ?thesis using assms by (simp add: block_lock_fails records_written_simps)
next
  case (Inr lock)
  note lock = this
  show ?thesis
  proof (cases "resolve_process_name d st cmd specific")
    case None
    then show ?thesis using assms lock
      by (simp add: block_name_never_returns lock_events_quiet)
  next
    case (Some r)
    show ?thesis
    proof (cases r)
      case (Inl e)
      then show ?thesis using assms lock Some
        by (simp add: block_name_throws lock_events_quiet records_written_simps)
    next
      case (Inr t)
      then obtain name cmd' st' where r: "r = Inr (name, cmd', st')" by (cases t) auto
      show ?thesis
      proof (cases "d \<noteq> None \<and> proc_dir_writable env")
        case False
        then show ?thesis using assms block_untracked [OF lock Some [unfolded r] False]
          by (simp add: lock_events_quiet records_written_simps supervise_projections)
      next
        case True
        let ?c = "ScopedProcFile_ctor pid (locking env \<noteq> LockingDisabled) (pid_file_opens env)
           (target_prefix env) name raw lock d"
        obtain res evs where c: "?c = (res, evs)" by (cases ?c)
        have rw: "records_written evs
                    = (case res of Inl e \<Rightarrow> [] | Inr d' \<Rightarrow> [(location pid, file_json name raw (target_prefix env))])"
          using ctor_projections(3) [of pid "locking env \<noteq> LockingDisabled" "pid_file_opens env"
              "target_prefix env" name raw lock d] c by simp
        show ?thesis
        proof (cases res)
          case (Inl ed)
          then obtain e d1 where Inl: "res = Inl (e, d1)" by (cases ed) auto
          then show ?thesis
            using assms block_record_not_written [OF lock Some [unfolded r] True c [unfolded Inl]] rw
            by (simp add: lock_events_quiet records_written_simps)
        next
          case (Inr d')
          obtain d'' devs where dt: "ScopedProcFile_dtor (locking env) (location pid) d' = Inr (d'', devs)"
            using dtor_after_lock [OF lock] by blast
          show ?thesis
            using assms block_tracked [OF lock Some [unfolded r] True c [unfolded Inr] dt] rw Inr
              dtor_projections [OF dt] Some r
            by (auto simp: lock_events_quiet records_written_simps supervise_projections)
        qed
      qed
    qed
  qed
qed

subsection \<open>The whole run\<close>

lemma continuing_pid:
  assumes "(if detach then daemonize env else (Continues (self_pid env), [])) = (Continues pid, devs)"
  shows "pid = supervisor_pid env detach"
    and "records_written devs = []" and "children_started devs = []" and "stop_requests devs = []"
proof -
  show "pid = supervisor_pid env detach"
    using assms by (auto simp: daemonize_def supervisor_pid_def split: if_splits option.splits)
  have "devs = (if detach then snd (daemonize env) else [])"
    using assms by (auto split: if_splits)
  then show "records_written devs = []" and "children_started devs = []"
    and "stop_requests devs = []"
    by (simp_all add: daemonize_quiet records_written_simps children_started_simps
        stop_requests_simps)
qed

lemma run_reaches_block:
  assumes "get_all_running_processes_info None (fst (create_directories env dir0)) = Inr (info, warns)"
    and "command = front # args"
    and "(if detach then daemonize env else (Continues (self_pid env), [])) = (Continues pid, devs)"
    and "dumpable info"
  shows "\<exists>pre. records_written pre = [] \<and> children_started pre = [] \<and> stop_requests pre = []
     \<and> run_in_environment env dir0 st command cwd stream_options clean_env detach env_vars specific
       = (block env (supervisor_pid env detach) (fst (create_directories env dir0)) st
            (if front \<noteq> ''exec'' then ''exec'' # command else command) command
            (prepare_wrapped_call env (if front \<noteq> ''exec'' then ''exec'' # command else command))
            (fst (make_options env cwd stream_options clean_env env_vars)) specific)
         \<lparr>trace := pre @ trace
            (block env (supervisor_pid env detach) (fst (create_directories env dir0)) st
            (if front \<noteq> ''exec'' then ''exec'' # command else command) command
            (prepare_wrapped_call env (if front \<noteq> ''exec'' then ''exec'' # command else command))
            (fst (make_options env cwd stream_options clean_env env_vars)) specific)\<rparr>"
proof -
  let ?pre = "snd (create_directories env dir0) @ map Warn warns
      @ map Warn (snd (make_options env cwd stream_options clean_env env_vars)) @ devs"
  have pid: "pid = supervisor_pid env detach" by (rule continuing_pid(1) [OF assms(3)])
  have quiet: "records_written ?pre = []" "children_started ?pre = []" "stop_requests ?pre = []"
    by (simp_all add: records_written_simps children_started_simps stop_requests_simps
        create_directories_quiet continuing_pid(2-4) [OF assms(3)])
  have "run_in_environment env dir0 st command cwd stream_options clean_env detach env_vars specific
       = (block env pid (fst (create_directories env dir0)) st
            (if front \<noteq> ''exec'' then ''exec'' # command else command) command
            (prepare_wrapped_call env (if front \<noteq> ''exec'' then ''exec'' # command else command))
            (fst (make_options env cwd stream_options clean_env env_vars)) specific)
         \<lparr>trace := ?pre @ trace
            (block env pid (fst (create_directories env dir0)) st
            (if front \<noteq> ''exec'' then ''exec'' # command else command) command
            (prepare_wrapped_call env (if front \<noteq> ''exec'' then ''exec'' # command else command))
            (fst (make_options env cwd stream_options clean_env env_vars)) specific)\<rparr>"
    unfolding run_in_environment_def assms(1) assms(2) [symmetric]
    using assms(2,3,4) by (simp add: Let_def)
  then show ?thesis using quiet unfolding pid by blast
qed

lemma run_stops_before_block:
  assumes "\<not> (\<exists>info warns front args pid devs.
      get_all_running_processes_info None (fst (create_directories env dir0)) = Inr (info, warns)
      \<and> dumpable info
      \<and> command = front # args
      \<and> (if detach then daemonize env else (Continues (self_pid env), [])) = (Continues pid, devs))"
  shows "records_written (trace (run_in_environment env dir0 st command cwd stream_options
            clean_env detach env_vars specific)) = []
     \<and> children_started (trace (run_in_environment env dir0 st command cwd stream_options
            clean_env detach env_vars specific)) = []
     \<and> stop_requests (trace (run_in_environment env dir0 st command cwd stream_options
            clean_env detach env_vars specific)) = []
     \<and> registry (run_in_environment env dir0 st command cwd stream_options
            clean_env detach env_vars specific) = fst (create_directories env dir0)
     \<and> registry_at_start (run_in_environment env dir0 st command cwd stream_options
            clean_env detach env_vars specific) = fst (create_directories env dir0)
     \<and> ((\<exists>e. result (run_in_environment env dir0 st command cwd stream_options
            clean_env detach env_vars specific) = Threw e)
        \<or> (\<exists>code. result (run_in_environment env dir0 st command cwd stream_options
            clean_env detach env_vars specific) = Exited code))"
proof (cases "get_all_running_processes_info None (fst (create_directories env dir0))")
  case (Inl e)
  then show ?thesis
    by (simp add: run_in_environment_def create_directories_quiet)
next
  case (Inr r)
  then obtain info warns where l:
    "get_all_running_processes_info None (fst (create_directories env dir0)) = Inr (info, warns)"
    by (cases r) auto
  show ?thesis
  proof (cases "dumpable info")
    case False
    then show ?thesis
      by (simp add: run_in_environment_def l create_directories_quiet records_written_simps
          children_started_simps stop_requests_simps)
  next
    case dump: True
  show ?thesis
  proof (cases command)
    case Nil
    then show ?thesis
      by (simp add: run_in_environment_def l dump create_directories_quiet records_written_simps
          children_started_simps stop_requests_simps)
  next
    case (Cons front args)
    obtain dm devs where d: "(if detach then daemonize env else (Continues (self_pid env), []))
                                = (dm, devs)"
      by (cases "if detach then daemonize env else (Continues (self_pid env), [])")
    have devs: "devs = (if detach then snd (daemonize env) else [])"
      using d by (auto split: if_splits)
    have quiet: "records_written devs = []" "children_started devs = []" "stop_requests devs = []"
      unfolding devs
      by (simp_all add: daemonize_quiet records_written_simps children_started_simps
          stop_requests_simps)
    show ?thesis
    proof (cases dm)
      case (Continues pid)
      then show ?thesis using assms l Cons d dump by blast
    next
      case (Exits code)
      show ?thesis
        unfolding run_in_environment_def l Cons
        using d Exits quiet dump
        by (simp add: create_directories_quiet records_written_simps
            children_started_simps stop_requests_simps)
    qed
  qed
  qed
qed

subsection \<open>Example runs\<close>

lemma location_500: "location 500 = ''500.json''" and location_501: "location 501 = ''501.json''"
  and location_777: "location 777 = ''777.json''"
  by (simp_all add: location_def to_string.simps digit_char_def)

lemma example_generated_name:
  "generate_unique_process_name (Some []) ''echo'' (initial_statics (sconst 0))
     = Some (Inr (''curious_echo'', pop_prefix (initial_statics (sconst 0))))"
  using generate_first_candidate [OF _ initial_first_prefix(1) empty_registry_not_running,
      of "''echo''"]
  unfolding initial_first_prefix format_name_def by simp

lemma example_resolve:
  "resolve_process_name (Some []) (initial_statics (sconst 0)) [''exec'', ''echo'', ''hi''] ''''
     = Some (Inr (''curious_echo'', [''exec'', ''-a'', ''curious_echo'', ''echo'', ''hi''],
                  pop_prefix (initial_statics (sconst 0))))"
  by (simp add: resolve_process_name_def example_generated_name)

lemma example_dumpable:
  "dumpable (file_json ''curious_echo'' [''echo'', ''hi''] ''/opt/env'')"
  by (simp add: dumpable_file_json_ascii ascii_def)

lemma example_options:
  "make_options env '''' 0 False [] = (default_options, [])"
  by (simp add: make_options_def default_options_def)

lemma example_listing: "get_all_running_processes_info None (Some []) = Inr (JNull, [])"
  by (simp add: get_all_running_processes_info_def)

lemma example_detached_run:
  "run_in_environment example_env (Some []) (initial_statics (sconst 0)) [''echo'', ''hi'']
     '''' 0 False True [] ''''
   = \<lparr>result = Returned 0,
      trace = [Forked 501, LockAcquired,
               RecordWritten ''501.json'' (file_json ''curious_echo'' [''echo'', ''hi''] ''/opt/env''),
               LockReleased,
               ChildStarted [''/tmp/wrapped.sh'', ''exec'', ''echo'', ''hi''] 777,
               HandlerInstalled, Drained, StopRequested (stop default_options),
               LockAcquired, RecordRemoved ''501.json'', LockReleased],
      registry = Some [],
      pools = pop_prefix (initial_statics (sconst 0)),
      registry_at_start =
        Some [(''501.json'', Contents (file_json ''curious_echo'' [''echo'', ''hi''] ''/opt/env''))]\<rparr>"
  by (simp add: run_in_environment_def block_def example_env_def create_directories_def
      example_listing daemonize_def example_options lock_proc_dir_def example_resolve
      ScopedProcFile_ctor_def ScopedProcFile_dtor_def location_501 supervise_def
      acquired_def released_def example_dumpable)

lemma supervisor_pid_child: "supervisor_pid (env\<lparr>child_pid := c\<rparr>) detach = supervisor_pid env detach"
  by (simp add: supervisor_pid_def split: option.splits)

lemma run_records_written:
  assumes "(loc, j) \<in> set (records_written (trace (run_in_environment env dir0 st command cwd
              stream_options clean_env detach env_vars specific)))"
  shows "loc = location (supervisor_pid env detach)
         \<and> (\<exists>name. j = file_json name command (target_prefix env))"
proof (cases "\<exists>info warns front args pid devs.
      get_all_running_processes_info None (fst (create_directories env dir0)) = Inr (info, warns)
      \<and> dumpable info
      \<and> command = front # args
      \<and> (if detach then daemonize env else (Continues (self_pid env), [])) = (Continues pid, devs)")
  case False
  then show ?thesis
    using run_stops_before_block [of env dir0 command detach st cwd stream_options clean_env
        env_vars specific] assms
    by simp
next
  case True
  then obtain info warns front args pid devs where
    h: "get_all_running_processes_info None (fst (create_directories env dir0)) = Inr (info, warns)"
       "command = front # args"
       "(if detach then daemonize env else (Continues (self_pid env), [])) = (Continues pid, devs)"
       "dumpable info"
    by blast
  let ?b = "block env (supervisor_pid env detach) (fst (create_directories env dir0)) st
            (if front \<noteq> ''exec'' then ''exec'' # command else command) command
            (prepare_wrapped_call env (if front \<noteq> ''exec'' then ''exec'' # command else command))
            (fst (make_options env cwd stream_options clean_env env_vars)) specific"
  obtain pre where pre: "records_written pre = []"
    and run: "run_in_environment env dir0 st command cwd stream_options clean_env detach env_vars
                specific = ?b\<lparr>trace := pre @ trace ?b\<rparr>"
    using run_reaches_block [OF h, of st cwd stream_options clean_env env_vars specific] by blast
  have "(loc, j) \<in> set (records_written (trace ?b))"
    using assms unfolding run by (simp add: records_written_simps pre)
  then show ?thesis using block_records_written by blast
qed

subsection \<open>The record in the registry while the child runs\<close>

lemma list_entries_success_listable:
  assumes "list_entries None es (a, w) = Inr r"
  shows "listable es"
  using assms
proof (induction es arbitrary: a w)
  case Nil
  show ?case by (simp add: listable_def)
next
  case (Cons x es)
  obtain n f where x: "x = (n, f)" by (cases x)
  show ?case
  proof (cases "extension n = ''.json''")
    case False
    then have "list_entries None es (a, w) = Inr r"
      using Cons.prems by (simp add: x)
    then have "listable es" by (rule Cons.IH)
    then show ?thesis using False by (simp add: listable_def x)
  next
    case True
    show ?thesis
    proof (cases f)
      case Unopenable
      then have "list_entries None es (a, w @ [FailedToOpen n]) = Inr r"
        using Cons.prems True by (simp add: x)
      then have "listable es" by (rule Cons.IH)
      then show ?thesis using Unopenable by (simp add: listable_def x)
    next
      case Unparsable
      then show ?thesis using Cons.prems True by (simp add: x)
    next
      case (Contents c)
      show ?thesis
      proof (cases "json_set c ''pid'' (JString (replace_extension n))")
        case (Inl e)
        then show ?thesis using Cons.prems True Contents by (simp add: x)
      next
        case (Inr info)
        have lf: "listable_file f"
          using Inr Contents by (cases c) simp_all
        obtain a1 where "json_push_back a info = Inr a1"
          and "list_entries None es (a1, w) = Inr r"
          using Cons.prems True Contents Inr
          by (cases "json_push_back a info") (simp_all add: x)
        then have "listable es" using Cons.IH by blast
        then show ?thesis using lf by (simp add: listable_def x)
      qed
    qed
  qed
qed

lemma listing_success_listable:
  "get_all_running_processes_info None (Some es) = Inr r \<Longrightarrow> listable es"
  using list_entries_success_listable [of es JNull "[]" r]
  by (simp add: get_all_running_processes_info_def)

lemma ctor_returned:
  assumes "ScopedProcFile_ctor pid ul opens prefix name cmd lock d = (Inr d', evs)"
  shows "\<exists>es. d = Some es
     \<and> d' = Some (AList.update (location pid) (Contents (file_json name cmd prefix)) es)
     \<and> dumpable (file_json name cmd prefix)
     \<and> evs = RecordWritten (location pid) (file_json name cmd prefix) # released lock"
  using assms
  by (cases d) (auto simp: ScopedProcFile_ctor_def split: if_splits)

lemma block_registry_at_start:
  assumes "(loc, j) \<in> set (records_written (trace (block env pid d st cmd raw wrapped opt specific)))"
  shows "\<exists>es. d = Some es
     \<and> registry_at_start (block env pid d st cmd raw wrapped opt specific)
         = Some (AList.update loc (Contents j) es)"
proof (cases "lock_proc_dir (locking env)")
  case (Inl e)
  then show ?thesis using assms by (simp add: block_lock_fails records_written_simps)
next
  case (Inr lock)
  note lock = this
  show ?thesis
  proof (cases "resolve_process_name d st cmd specific")
    case None
    then show ?thesis using assms lock
      by (simp add: block_name_never_returns lock_events_quiet)
  next
    case (Some r)
    show ?thesis
    proof (cases r)
      case (Inl e)
      then show ?thesis using assms lock Some
        by (simp add: block_name_throws lock_events_quiet records_written_simps)
    next
      case (Inr t)
      then obtain name cmd' st' where r: "r = Inr (name, cmd', st')" by (cases t) auto
      show ?thesis
      proof (cases "d \<noteq> None \<and> proc_dir_writable env")
        case False
        then show ?thesis using assms block_untracked [OF lock Some [unfolded r] False]
          by (simp add: lock_events_quiet records_written_simps supervise_projections)
      next
        case True
        let ?c = "ScopedProcFile_ctor pid (locking env \<noteq> LockingDisabled) (pid_file_opens env)
           (target_prefix env) name raw lock d"
        obtain res evs where c: "?c = (res, evs)" by (cases ?c)
        have rw: "records_written evs
                    = (case res of Inl e \<Rightarrow> [] | Inr d' \<Rightarrow> [(location pid, file_json name raw (target_prefix env))])"
          using ctor_projections(3) [of pid "locking env \<noteq> LockingDisabled" "pid_file_opens env"
              "target_prefix env" name raw lock d] c by simp
        show ?thesis
        proof (cases res)
          case (Inl ed)
          then obtain e d1 where Inl: "res = Inl (e, d1)" by (cases ed) auto
          then show ?thesis
            using assms block_record_not_written [OF lock Some [unfolded r] True c [unfolded Inl]] rw
            by (simp add: lock_events_quiet records_written_simps)
        next
          case (Inr d')
          obtain d'' devs where dt: "ScopedProcFile_dtor (locking env) (location pid) d' = Inr (d'', devs)"
            using dtor_after_lock [OF lock] by blast
          from ctor_returned [OF c [unfolded Inr]] obtain es where es: "d = Some es"
            and d': "d' = Some (AList.update (location pid)
                       (Contents (file_json name raw (target_prefix env))) es)"
            by blast
          have "(loc, j) = (location pid, file_json name raw (target_prefix env))"
            using assms block_tracked [OF lock Some [unfolded r] True c [unfolded Inr] dt] rw Inr
              dtor_projections [OF dt]
            by (auto simp: lock_events_quiet records_written_simps supervise_projections)
          then show ?thesis
            using es d' block_tracked [OF lock Some [unfolded r] True c [unfolded Inr] dt]
            by simp
        qed
      qed
    qed
  qed
qed

lemma run_registry_at_start:
  assumes "(loc, j) \<in> set (records_written (trace (run_in_environment env dir0 st command cwd
              stream_options clean_env detach env_vars specific)))"
  shows "\<exists>es info warns. fst (create_directories env dir0) = Some es
     \<and> get_all_running_processes_info None (Some es) = Inr (info, warns)
     \<and> registry_at_start (run_in_environment env dir0 st command cwd
              stream_options clean_env detach env_vars specific)
         = Some (AList.update loc (Contents j) es)"
proof (cases "\<exists>info warns front args pid devs.
      get_all_running_processes_info None (fst (create_directories env dir0)) = Inr (info, warns)
      \<and> dumpable info
      \<and> command = front # args
      \<and> (if detach then daemonize env else (Continues (self_pid env), [])) = (Continues pid, devs)")
  case False
  then show ?thesis
    using run_stops_before_block [of env dir0 command detach st cwd stream_options clean_env
        env_vars specific] assms
    by simp
next
  case True
  then obtain info warns front args pid devs where
    h: "get_all_running_processes_info None (fst (create_directories env dir0)) = Inr (info, warns)"
       "command = front # args"
       "(if detach then daemonize env else (Continues (self_pid env), [])) = (Continues pid, devs)"
       "dumpable info"
    by blast
  let ?b = "block env (supervisor_pid env detach) (fst (create_directories env dir0)) st
            (if front \<noteq> ''exec'' then ''exec'' # command else command) command
            (prepare_wrapped_call env (if front \<noteq> ''exec'' then ''exec'' # command else command))
            (fst (make_options env cwd stream_options clean_env env_vars)) specific"
  obtain pre where pre: "records_written pre = []"
    and run: "run_in_environment env dir0 st command cwd stream_options clean_env detach env_vars
                specific = ?b\<lparr>trace := pre @ trace ?b\<rparr>"
    using run_reaches_block [OF h, of st cwd stream_options clean_env env_vars specific] by blast
  have "(loc, j) \<in> set (records_written (trace ?b))"
    using assms unfolding run by (simp add: records_written_simps pre)
  from block_registry_at_start [OF this] obtain es where
    "fst (create_directories env dir0) = Some es"
    "registry_at_start ?b = Some (AList.update loc (Contents j) es)"
    by blast
  then show ?thesis using h(1) unfolding run by simp
qed

lemma create_directories_unique:
  "file_names_unique dir0 \<Longrightarrow> fst (create_directories env dir0) = Some es \<Longrightarrow>
     distinct (map fst es)"
  by (auto simp: file_names_unique_def create_directories_def split: option.splits if_splits)

lemma entry_record_listed:
  "x \<in> set es \<Longrightarrow> set (entry_record x) \<subseteq> set (records_of es)"
  by (induction es) (auto simp: records_of_Cons simp del: entry_record.simps)

lemma written_record_among_listed:
  assumes "listable es"
  shows "\<exists>recs w.
     get_all_running_processes_info None
         (Some (AList.update (location pid) (Contents (file_json name command prefix)) es))
       = Inr (JArray recs, w)
     \<and> JObject [(''name'', JString name), (''command'', JArray (map JString command)),
                (''prefix'', JString prefix), (''pid'', JString (to_string pid))] \<in> set recs"
proof -
  let ?v = "Contents (file_json name command prefix)"
  let ?es' = "AList.update (location pid) ?v es"
  let ?rec = "JObject [(''name'', JString name), (''command'', JArray (map JString command)),
                     (''prefix'', JString prefix), (''pid'', JString (to_string pid))]"
  have "listable_file ?v" by (simp add: file_json_def)
  then have "listable ?es'" using assms by (rule listable_update [rotated])
  then obtain j where j: "list_entries None ?es' (JNull, []) = Inr (j, [] @ open_failures ?es')"
    "json_elements j = json_elements JNull @ records_of ?es'" "is_listing j"
    using list_entries_listable [of ?es' JNull "[]"] by auto
  have rec: "entry_record (location pid, ?v) = [?rec]" by (rule file_json_record)
  have mem: "?rec \<in> set (records_of ?es')"
    using entry_record_listed [OF update_holds_new_file [of "location pid" ?v es]]
    unfolding rec by simp
  then have "records_of ?es' \<noteq> []" by auto
  then obtain recs where recs: "j = JArray recs" "recs = records_of ?es'"
    using j(2,3) by (cases j) simp_all
  show ?thesis
    using j(1) recs mem by (simp add: get_all_running_processes_info_def)
qed

text \<open>
  C9: whatever the pid of the child, a record a run writes is the file named after the
  pid of the process that runs the block: the invoked one, or the one \<open>fork\<close> made when
  detaching. When the child is started the registry directory holds that file, and the
  listing of the directory returns a record with this pid in decimal as its \<open>pid\<close>, which
  carries the written name, command and prefix; it is the only record with this \<open>pid\<close>
  when the directory holds each file name once. No other pid has this file name or this
  decimal form.
\<close>

theorem record_is_named_after_the_supervisor:
  assumes "(loc, j) \<in> set (records_written (trace (run_in_environment (env\<lparr>child_pid := c\<rparr>)
              dir0 st command cwd stream_options clean_env detach env_vars specific)))"
  shows "loc = location (supervisor_pid env detach)
     \<and> (\<exists>es name recs w.
           registry_at_start (run_in_environment (env\<lparr>child_pid := c\<rparr>)
              dir0 st command cwd stream_options clean_env detach env_vars specific) = Some es
         \<and> map_of es (location (supervisor_pid env detach)) = Some (Contents j)
         \<and> j = file_json name command (target_prefix env)
         \<and> get_all_running_processes_info None (Some es) = Inr (JArray recs, w)
         \<and> JObject [(''name'', JString name), (''command'', JArray (map JString command)),
                    (''prefix'', JString (target_prefix env)),
                    (''pid'', JString (to_string (supervisor_pid env detach)))] \<in> set recs
         \<and> (file_names_unique dir0 \<longrightarrow>
              filter (\<lambda>r. json_lookup r ''pid''
                          = Some (JString (to_string (supervisor_pid env detach)))) recs
                = [JObject [(''name'', JString name), (''command'', JArray (map JString command)),
                            (''prefix'', JString (target_prefix env)),
                            (''pid'', JString (to_string (supervisor_pid env detach)))]]))
     \<and> (\<forall>p. p \<noteq> supervisor_pid env detach \<longrightarrow>
            loc \<noteq> location p \<and> to_string p \<noteq> to_string (supervisor_pid env detach))"
proof -
  let ?R = "run_in_environment (env\<lparr>child_pid := c\<rparr>)
              dir0 st command cwd stream_options clean_env detach env_vars specific"
  let ?p = "supervisor_pid env detach"
  from run_records_written [OF assms(1)]
  obtain name where loc: "loc = location ?p"
    and j: "j = file_json name command (target_prefix env)"
    by (auto simp: supervisor_pid_child)
  let ?rec = "JObject [(''name'', JString name), (''command'', JArray (map JString command)),
                     (''prefix'', JString (target_prefix env)), (''pid'', JString (to_string ?p))]"
  from run_registry_at_start [OF assms(1)] obtain es0 info warns where
    es0: "fst (create_directories (env\<lparr>child_pid := c\<rparr>) dir0) = Some es0"
    and l0: "get_all_running_processes_info None (Some es0) = Inr (info, warns)"
    and at: "registry_at_start ?R = Some (AList.update loc (Contents j) es0)"
    by blast
  let ?es = "AList.update (location ?p) (Contents (file_json name command (target_prefix env))) es0"
  have l: "listable es0" by (rule listing_success_listable [OF l0])
  from written_record_among_listed [OF l, of ?p name command "target_prefix env"]
  obtain recs w where
    listing: "get_all_running_processes_info None (Some ?es) = Inr (JArray recs, w)"
    and mem: "?rec \<in> set recs"
    by blast
  have only: "filter (\<lambda>r. json_lookup r ''pid'' = Some (JString (to_string ?p))) recs = [?rec]"
    if u: "file_names_unique dir0"
  proof -
    have d: "distinct (map fst es0)" by (rule create_directories_unique [OF u es0])
    from written_record_listed [OF d l, of ?p name command "target_prefix env"]
    show ?thesis using listing by auto
  qed
  have held: "map_of ?es (location ?p) = Some (Contents j)"
    by (simp add: update_conv' j)
  have others: "\<forall>p. p \<noteq> ?p \<longrightarrow> loc \<noteq> location p \<and> to_string p \<noteq> to_string ?p"
    unfolding loc using location_inj to_string_inj by blast
  have at': "registry_at_start ?R = Some ?es" using at unfolding loc j .
  show ?thesis
    using loc j at' held listing mem only others by blast
qed

lemma example_detached_listing:
  "get_all_running_processes_info None
     (Some [(''501.json'', Contents (file_json ''curious_echo'' [''echo'', ''hi''] ''/opt/env''))])
   = Inr (JArray [JObject [(''name'', JString ''curious_echo''),
                           (''command'', JArray [JString ''echo'', JString ''hi'']),
                           (''prefix'', JString ''/opt/env''), (''pid'', JString ''501'')]], [])"
  by (simp add: get_all_running_processes_info_def extension_def replace_extension_def
      file_json_def)

theorem record_is_named_after_the_supervisor_witness:
  "records_written (trace (run_in_environment (example_env\<lparr>child_pid := Some 777\<rparr>) (Some [])
       (initial_statics (sconst 0)) [''echo'', ''hi''] '''' 0 False True [] ''''))
     = [(''501.json'', file_json ''curious_echo'' [''echo'', ''hi''] ''/opt/env'')]
   \<and> file_names_unique (Some [])
   \<and> registry_at_start (run_in_environment (example_env\<lparr>child_pid := Some 777\<rparr>) (Some [])
       (initial_statics (sconst 0)) [''echo'', ''hi''] '''' 0 False True [] '''')
     = Some [(''501.json'', Contents (file_json ''curious_echo'' [''echo'', ''hi''] ''/opt/env''))]
   \<and> get_all_running_processes_info None
       (Some [(''501.json'', Contents (file_json ''curious_echo'' [''echo'', ''hi''] ''/opt/env''))])
     = Inr (JArray [JObject [(''name'', JString ''curious_echo''),
                             (''command'', JArray [JString ''echo'', JString ''hi'']),
                             (''prefix'', JString ''/opt/env''), (''pid'', JString ''501'')]], [])
   \<and> supervisor_pid example_env True = 501
   \<and> ''501.json'' = location (supervisor_pid example_env True)
   \<and> ''501.json'' \<noteq> location 777
   \<and> to_string 777 \<noteq> to_string (supervisor_pid example_env True)"
proof -
  have same: "example_env\<lparr>child_pid := Some 777\<rparr> = example_env"
    by (simp add: example_env_def)
  have w: "records_written (trace (run_in_environment (example_env\<lparr>child_pid := Some 777\<rparr>)
       (Some []) (initial_statics (sconst 0)) [''echo'', ''hi''] '''' 0 False True [] ''''))
     = [(''501.json'', file_json ''curious_echo'' [''echo'', ''hi''] ''/opt/env'')]"
    unfolding same example_detached_run by (simp add: records_written_simps)
  then have mem: "(''501.json'', file_json ''curious_echo'' [''echo'', ''hi''] ''/opt/env'')
      \<in> set (records_written (trace (run_in_environment (example_env\<lparr>child_pid := Some 777\<rparr>)
       (Some []) (initial_statics (sconst 0)) [''echo'', ''hi''] '''' 0 False True [] '''')))"
    by simp
  have u: "file_names_unique (Some [])" by (simp add: file_names_unique_def)
  have at: "registry_at_start (run_in_environment (example_env\<lparr>child_pid := Some 777\<rparr>) (Some [])
       (initial_statics (sconst 0)) [''echo'', ''hi''] '''' 0 False True [] '''')
     = Some [(''501.json'', Contents (file_json ''curious_echo'' [''echo'', ''hi''] ''/opt/env''))]"
    unfolding same example_detached_run by simp
  have sup: "supervisor_pid example_env True = 501"
    by (simp add: supervisor_pid_def example_env_def)
  have "(777::nat) \<noteq> supervisor_pid example_env True" unfolding sup by simp
  then show ?thesis
    using record_is_named_after_the_supervisor [OF mem] w u at sup example_detached_listing
    by blast
qed

subsection \<open>Runs that get to the block\<close>

lemma create_directories_existing: "create_directories env (Some es) = (Some es, [])"
  by (simp add: create_directories_def)

lemma loggable_listing:
  "loggable d \<Longrightarrow>
     \<exists>es info warns. d = Some es
        \<and> get_all_running_processes_info None d = Inr (info, warns) \<and> dumpable info"
  by (cases d)
     (auto simp: loggable_def get_all_running_processes_info_def split: sum.splits)

lemma supervise_status:
  "fst (supervise env opt wrapped) = (case child_pid env of None \<Rightarrow> 1 | Some pid \<Rightarrow> child_status env)"
  by (simp add: supervise_def split: option.splits)

lemma ctor_in_block:
  assumes "lock_proc_dir cfg = Inr lock" and "opens"
    and "dumpable (file_json name cmd prefix)"
  shows "ScopedProcFile_ctor pid (cfg \<noteq> LockingDisabled) opens prefix name cmd lock (Some es)
           = (Inr (Some (AList.update (location pid) (Contents (file_json name cmd prefix)) es)),
              RecordWritten (location pid) (file_json name cmd prefix) # released lock)"
  using assms by (cases cfg) (simp_all add: ScopedProcFile_ctor_def lock_proc_dir_def)

lemma ctor_in_block_throws:
  assumes "lock_proc_dir cfg = Inr lock" and "opens"
    and "\<not> dumpable (file_json name cmd prefix)"
  shows "ScopedProcFile_ctor pid (cfg \<noteq> LockingDisabled) opens prefix name cmd lock (Some es)
           = (Inl (TypeError, Some (AList.update (location pid) Unparsable es)), released lock)"
  using assms by (cases cfg) (simp_all add: ScopedProcFile_ctor_def lock_proc_dir_def)

lemma update_key_present: "k \<in> fst ` set (AList.update k v es)"
  using update_holds_new_file [of k v es] by force

lemma dtor_removes:
  assumes "lock_proc_dir cfg = Inr lock"
  shows "ScopedProcFile_dtor cfg loc (Some (AList.update loc v es))
           = Inr (Some (AList.delete loc (AList.update loc v es)),
                  acquired lock @ [RecordRemoved loc] @ released lock)"
  using assms update_key_present [of loc v es] by (simp add: ScopedProcFile_dtor_def)


lemma run_untracked:
  assumes "loggable (Some es)" and "command = front # args"
    and "(if detach then daemonize env else (Continues (self_pid env), [])) = (Continues pid, devs)"
    and "lock_proc_dir (locking env) = Inr lock"
    and "resolve_process_name (Some es) st
           (if front \<noteq> ''exec'' then ''exec'' # command else command) specific
         = Some (Inr (name, command', st'))"
    and "\<not> proc_dir_writable env"
  shows "\<exists>pre. records_written pre = [] \<and> children_started pre = [] \<and> stop_requests pre = []
     \<and> run_in_environment env (Some es) st command cwd stream_options clean_env detach env_vars
          specific
       = \<lparr>result = Returned (case child_pid env of None \<Rightarrow> 1 | Some c \<Rightarrow> child_status env),
          trace = pre @ acquired lock
            @ snd (supervise env (fst (make_options env cwd stream_options clean_env env_vars))
                    (prepare_wrapped_call env
                       (if front \<noteq> ''exec'' then ''exec'' # command else command)))
            @ released lock,
          registry = Some es, pools = st', registry_at_start = Some es\<rparr>"
proof -
  from loggable_listing [OF assms(1)] obtain info warns where
    l: "get_all_running_processes_info None (fst (create_directories env (Some es)))
          = Inr (info, warns)"
    and dump: "dumpable info"
    by (auto simp: create_directories_existing)
  from run_reaches_block [OF l assms(2,3) dump, of st cwd stream_options clean_env env_vars specific]
  obtain pre where pre: "records_written pre = []" "children_started pre = []"
      "stop_requests pre = []"
    and run: "run_in_environment env (Some es) st command cwd stream_options clean_env detach
                env_vars specific
       = (block env (supervisor_pid env detach) (fst (create_directories env (Some es))) st
            (if front \<noteq> ''exec'' then ''exec'' # command else command) command
            (prepare_wrapped_call env (if front \<noteq> ''exec'' then ''exec'' # command else command))
            (fst (make_options env cwd stream_options clean_env env_vars)) specific)
         \<lparr>trace := pre @ trace
            (block env (supervisor_pid env detach) (fst (create_directories env (Some es))) st
            (if front \<noteq> ''exec'' then ''exec'' # command else command) command
            (prepare_wrapped_call env (if front \<noteq> ''exec'' then ''exec'' # command else command))
            (fst (make_options env cwd stream_options clean_env env_vars)) specific)\<rparr>"
    by blast
  have no: "\<not> (Some es \<noteq> None \<and> proc_dir_writable env)" using assms(6) by simp
  show ?thesis
    unfolding run create_directories_existing fst_conv
      block_untracked [OF assms(4,5) no]
    using pre by (intro exI [of _ pre]) (simp add: supervise_status)
qed

lemma run_tracked:
  assumes "loggable (Some es)" and "command = front # args"
    and "(if detach then daemonize env else (Continues (self_pid env), [])) = (Continues pid, devs)"
    and "lock_proc_dir (locking env) = Inr lock"
    and "resolve_process_name (Some es) st
           (if front \<noteq> ''exec'' then ''exec'' # command else command) specific
         = Some (Inr (name, command', st'))"
    and "proc_dir_writable env" and "pid_file_opens env"
    and "dumpable (file_json name command (target_prefix env))"
  shows "\<exists>pre. records_written pre = [] \<and> children_started pre = [] \<and> stop_requests pre = []
     \<and> run_in_environment env (Some es) st command cwd stream_options clean_env detach env_vars
          specific
       = \<lparr>result = Returned (case child_pid env of None \<Rightarrow> 1 | Some c \<Rightarrow> child_status env),
          trace = pre @ acquired lock
            @ (RecordWritten (location (supervisor_pid env detach))
                 (file_json name command (target_prefix env)) # released lock)
            @ snd (supervise env (fst (make_options env cwd stream_options clean_env env_vars))
                    (prepare_wrapped_call env
                       (if front \<noteq> ''exec'' then ''exec'' # command else command)))
            @ acquired lock @ [RecordRemoved (location (supervisor_pid env detach))]
            @ released lock,
          registry = Some (AList.delete (location (supervisor_pid env detach))
                       (AList.update (location (supervisor_pid env detach))
                          (Contents (file_json name command (target_prefix env))) es)),
          pools = st',
          registry_at_start = Some (AList.update (location (supervisor_pid env detach))
                          (Contents (file_json name command (target_prefix env))) es)\<rparr>"
proof -
  from loggable_listing [OF assms(1)] obtain info warns where
    l: "get_all_running_processes_info None (fst (create_directories env (Some es)))
          = Inr (info, warns)"
    and dump: "dumpable info"
    by (auto simp: create_directories_existing)
  from run_reaches_block [OF l assms(2,3) dump, of st cwd stream_options clean_env env_vars specific]
  obtain pre where pre: "records_written pre = []" "children_started pre = []"
      "stop_requests pre = []"
    and run: "run_in_environment env (Some es) st command cwd stream_options clean_env detach
                env_vars specific
       = (block env (supervisor_pid env detach) (fst (create_directories env (Some es))) st
            (if front \<noteq> ''exec'' then ''exec'' # command else command) command
            (prepare_wrapped_call env (if front \<noteq> ''exec'' then ''exec'' # command else command))
            (fst (make_options env cwd stream_options clean_env env_vars)) specific)
         \<lparr>trace := pre @ trace
            (block env (supervisor_pid env detach) (fst (create_directories env (Some es))) st
            (if front \<noteq> ''exec'' then ''exec'' # command else command) command
            (prepare_wrapped_call env (if front \<noteq> ''exec'' then ''exec'' # command else command))
            (fst (make_options env cwd stream_options clean_env env_vars)) specific)\<rparr>"
    by blast
  have yes: "Some es \<noteq> None \<and> proc_dir_writable env" using assms(6) by simp
  have ctor: "ScopedProcFile_ctor (supervisor_pid env detach) (locking env \<noteq> LockingDisabled)
      (pid_file_opens env) (target_prefix env) name command lock (Some es)
      = (Inr (Some (AList.update (location (supervisor_pid env detach))
                     (Contents (file_json name command (target_prefix env))) es)),
         RecordWritten (location (supervisor_pid env detach))
            (file_json name command (target_prefix env)) # released lock)"
    by (rule ctor_in_block [OF assms(4,7,8)])
  show ?thesis
    unfolding run create_directories_existing fst_conv
      block_tracked [OF assms(4,5) yes ctor dtor_removes [OF assms(4)]]
    using pre by (intro exI [of _ pre]) (simp add: supervise_status)
qed

lemma run_record_not_written:
  assumes "loggable (Some es)" and "command = front # args"
    and "(if detach then daemonize env else (Continues (self_pid env), [])) = (Continues pid, devs)"
    and "lock_proc_dir (locking env) = Inr lock"
    and "resolve_process_name (Some es) st
           (if front \<noteq> ''exec'' then ''exec'' # command else command) specific
         = Some (Inr (name, command', st'))"
    and "proc_dir_writable env" and "pid_file_opens env"
    and "\<not> dumpable (file_json name command (target_prefix env))"
  shows "\<exists>pre. records_written pre = [] \<and> children_started pre = [] \<and> stop_requests pre = []
     \<and> run_in_environment env (Some es) st command cwd stream_options clean_env detach env_vars
          specific
       = \<lparr>result = Threw TypeError,
          trace = pre @ acquired lock @ released lock,
          registry = Some (AList.update (location (supervisor_pid env detach)) Unparsable es),
          pools = st',
          registry_at_start
            = Some (AList.update (location (supervisor_pid env detach)) Unparsable es)\<rparr>"
proof -
  from loggable_listing [OF assms(1)] obtain info warns where
    l: "get_all_running_processes_info None (fst (create_directories env (Some es)))
          = Inr (info, warns)"
    and dump: "dumpable info"
    by (auto simp: create_directories_existing)
  from run_reaches_block [OF l assms(2,3) dump, of st cwd stream_options clean_env env_vars specific]
  obtain pre where pre: "records_written pre = []" "children_started pre = []"
      "stop_requests pre = []"
    and run: "run_in_environment env (Some es) st command cwd stream_options clean_env detach
                env_vars specific
       = (block env (supervisor_pid env detach) (fst (create_directories env (Some es))) st
            (if front \<noteq> ''exec'' then ''exec'' # command else command) command
            (prepare_wrapped_call env (if front \<noteq> ''exec'' then ''exec'' # command else command))
            (fst (make_options env cwd stream_options clean_env env_vars)) specific)
         \<lparr>trace := pre @ trace
            (block env (supervisor_pid env detach) (fst (create_directories env (Some es))) st
            (if front \<noteq> ''exec'' then ''exec'' # command else command) command
            (prepare_wrapped_call env (if front \<noteq> ''exec'' then ''exec'' # command else command))
            (fst (make_options env cwd stream_options clean_env env_vars)) specific)\<rparr>"
    by blast
  have yes: "Some es \<noteq> None \<and> proc_dir_writable env" using assms(6) by simp
  show ?thesis
    unfolding run create_directories_existing fst_conv
      block_record_not_written [OF assms(4,5) yes ctor_in_block_throws [OF assms(4,7,8)]]
    using pre by (intro exI [of _ pre]) simp
qed

subsection \<open>An explicit name\<close>

lemma list_entries_without_filter:
  assumes "list_entries (Some keep) es (a, w) = Inr r" and "is_listing a'"
  shows "\<exists>r'. list_entries None es (a', w') = Inr r'"
  using assms
proof (induction es arbitrary: a w a' w')
  case Nil
  then show ?case by simp
next
  case (Cons x es)
  obtain n f where x: "x = (n, f)" by (cases x)
  show ?case
  proof (cases "extension n = ''.json''")
    case False
    then show ?thesis using Cons.prems Cons.IH [of a w a' w'] by (simp add: x)
  next
    case True
    show ?thesis
    proof (cases f)
      case Unopenable
      then show ?thesis
        using Cons.prems Cons.IH [of a "w @ [FailedToOpen n]" a' "w' @ [FailedToOpen n]"] True
        by (simp add: x)
    next
      case Unparsable
      then show ?thesis using Cons.prems True by (simp add: x)
    next
      case (Contents c)
      show ?thesis
      proof (cases "json_set c ''pid'' (JString (replace_extension n))")
        case (Inl e)
        then show ?thesis using Cons.prems True Contents by (simp add: x)
      next
        case (Inr info)
        obtain a'' where a'': "json_push_back a' info = Inr a''" "is_listing a''"
          using json_push_back_listing [OF Cons.prems(2), of info] by blast
        show ?thesis
        proof (cases "keep info")
          case (Inl e)
          then show ?thesis using Cons.prems True Contents Inr by (simp add: x)
        next
          case kept: (Inr b)
          show ?thesis
          proof (cases b)
            case True
            obtain a1 where a1: "json_push_back a info = Inr a1"
              and rest: "list_entries (Some keep) es (a1, w) = Inr r"
              using Cons.prems(1) \<open>extension n = ''.json''\<close> Contents Inr kept True
              by (cases "json_push_back a info") (simp_all add: x)
            show ?thesis
              using Cons.IH [OF rest a''(2), of w'] \<open>extension n = ''.json''\<close> Contents Inr a''(1)
              by (simp add: x)
          next
            case False
            then have rest: "list_entries (Some keep) es (a, w) = Inr r"
              using Cons.prems(1) \<open>extension n = ''.json''\<close> Contents Inr kept
              by (simp add: x)
            show ?thesis
              using Cons.IH [OF rest a''(2), of w'] \<open>extension n = ''.json''\<close> Contents Inr a''(1)
              by (simp add: x)
          qed
        qed
      qed
    qed
  qed
qed

lemma name_check_implies_listing:
  assumes "is_process_name_running d name = Inr b"
  shows "\<exists>es info warns. d = Some es \<and> get_all_running_processes_info None d = Inr (info, warns)"
proof (cases d)
  case None
  then show ?thesis using assms
    by (simp add: is_process_name_running_def get_all_running_processes_info_def)
next
  case (Some es)
  then obtain r where "list_entries (Some (name_is name)) es (JNull, []) = Inr r"
    using assms
    by (cases "list_entries (Some (name_is name)) es (JNull, [])")
       (simp_all add: is_process_name_running_def get_all_running_processes_info_def)
  then obtain r' where "list_entries None es (JNull, []) = Inr r'"
    using list_entries_without_filter [of "name_is name" es JNull "[]" r JNull "[]"] by auto
  then show ?thesis using Some
    by (cases r') (simp add: get_all_running_processes_info_def)
qed












subsection \<open>The directory is not writable\<close>

lemma example_untracked_run:
  "run_in_environment (example_env\<lparr>proc_dir_writable := False\<rparr>) (Some [])
     (initial_statics (sconst 0)) [''echo'', ''hi''] '''' 0 False False [] ''''
   = \<lparr>result = Returned 0,
      trace = [LockAcquired,
               ChildStarted [''/tmp/wrapped.sh'', ''exec'', ''echo'', ''hi''] 777,
               HandlerInstalled, Drained, StopRequested (stop default_options),
               LockReleased],
      registry = Some [],
      pools = pop_prefix (initial_statics (sconst 0)),
      registry_at_start = Some []\<rparr>"
  by (simp add: run_in_environment_def block_def example_env_def create_directories_def
      example_listing example_options lock_proc_dir_def example_resolve
      supervise_def acquired_def released_def example_dumpable)

lemma example_tracked_run:
  "run_in_environment example_env (Some [])
     (initial_statics (sconst 0)) [''echo'', ''hi''] '''' 0 False False [] ''''
   = \<lparr>result = Returned 0,
      trace = [LockAcquired,
               RecordWritten ''500.json'' (file_json ''curious_echo'' [''echo'', ''hi''] ''/opt/env''),
               LockReleased,
               ChildStarted [''/tmp/wrapped.sh'', ''exec'', ''echo'', ''hi''] 777,
               HandlerInstalled, Drained, StopRequested (stop default_options),
               LockAcquired, RecordRemoved ''500.json'', LockReleased],
      registry = Some [],
      pools = pop_prefix (initial_statics (sconst 0)),
      registry_at_start =
        Some [(''500.json'', Contents (file_json ''curious_echo'' [''echo'', ''hi''] ''/opt/env''))]\<rparr>"
  by (simp add: run_in_environment_def block_def example_env_def create_directories_def
      example_listing example_options lock_proc_dir_def example_resolve
      ScopedProcFile_ctor_def ScopedProcFile_dtor_def location_500 supervise_def
      acquired_def released_def example_dumpable)

lemma example_missing_directory_run:
  "run_in_environment (example_env\<lparr>dir_creatable := False\<rparr>) None
     (initial_statics (sconst 0)) [''echo'', ''hi''] '''' 0 False False [] ''''
   = \<lparr>result = Threw FilesystemError,
      trace = [Warn CouldNotCreateProcDir],
      registry = None,
      pools = initial_statics (sconst 0),
      registry_at_start = None\<rparr>"
  by (simp add: run_in_environment_def example_env_def create_directories_def
      get_all_running_processes_info_def)

text \<open>
  C2 fails on the code: the directory exists but is not writable, so no record is
  written and the lock taken at line 339 is never moved out of \<open>proc_dir_lock\<close>; the child
  is started while the lock is held, and the lock is released only when the block is
  left, after the child has been stopped.
\<close>

theorem child_started_under_lock_without_record:
  "trace (run_in_environment (example_env\<lparr>proc_dir_writable := False\<rparr>) (Some [])
     (initial_statics (sconst 0)) [''echo'', ''hi''] '''' 0 False False [] '''')
   = [LockAcquired,
      ChildStarted [''/tmp/wrapped.sh'', ''exec'', ''echo'', ''hi''] 777,
      HandlerInstalled, Drained, StopRequested (stop default_options),
      LockReleased]
   \<and> started_under_lock False
        (trace (run_in_environment (example_env\<lparr>proc_dir_writable := False\<rparr>) (Some [])
           (initial_statics (sconst 0)) [''echo'', ''hi''] '''' 0 False False [] ''''))
   \<and> \<not> started_under_lock False
        (trace (run_in_environment example_env (Some [])
           (initial_statics (sconst 0)) [''echo'', ''hi''] '''' 0 False False [] ''''))"
  unfolding example_untracked_run example_tracked_run by simp

lemma daemonize_writable:
  "daemonize (env\<lparr>proc_dir_writable := w, pid_file_opens := p\<rparr>) = daemonize env"
  by (simp add: daemonize_def split: option.splits)

lemma supervisor_pid_writable:
  "supervisor_pid (env\<lparr>proc_dir_writable := w, pid_file_opens := p\<rparr>) detach
     = supervisor_pid env detach"
  by (simp add: supervisor_pid_def split: option.splits)

lemma run_missing_directory:
  assumes "\<not> dir_creatable env"
  shows "run_in_environment env None st command cwd stream_options clean_env detach env_vars
           specific
         = \<lparr>result = Threw FilesystemError, trace = [Warn CouldNotCreateProcDir],
            registry = None, pools = st, registry_at_start = None\<rparr>"
  using assms
  by (simp add: run_in_environment_def create_directories_def get_all_running_processes_info_def)

text \<open>
  C10 (amended): a registry directory that exists but is not writable does not stop the
  program. When the listing of the directory can be logged, the command is not empty, the
  process goes on after detaching, taking the lock does not fail and the name is
  resolved, the run on the directory that is not writable writes no record, leaves the
  registry as it was, starts the child and returns its status (1 when the child has no
  pid); when moreover the name, the command and the prefix are valid UTF-8, the run that
  tracks the process (the directory writable, the record file opening) starts the same
  child and returns the same status, and differs in writing the record. A directory that
  is missing and cannot be created stops the program: the run ends with the filesystem
  error of the listing, writes no record and starts no child.
\<close>

theorem unwritable_directory_runs_untracked:
  assumes "R = run_in_environment env (Some es) st command cwd stream_options clean_env detach
               env_vars specific"
    and "T = run_in_environment (env\<lparr>proc_dir_writable := True, pid_file_opens := True\<rparr>)
               (Some es) st command cwd stream_options clean_env detach env_vars specific"
    and "M = run_in_environment env None st command cwd stream_options clean_env detach
               env_vars specific"
  shows "(\<not> proc_dir_writable env \<and> loggable (Some es) \<and> command = front # args
          \<and> (if detach then daemonize env else (Continues (self_pid env), []))
               = (Continues pid, devs)
          \<and> lock_proc_dir (locking env) = Inr lock
          \<and> resolve_process_name (Some es) st
               (if front \<noteq> ''exec'' then ''exec'' # command else command) specific
             = Some (Inr (name, command', st'))
         \<longrightarrow> records_written (trace R) = []
           \<and> registry R = Some es \<and> registry_at_start R = Some es
           \<and> result R = Returned (case child_pid env of None \<Rightarrow> 1
                                   | Some child \<Rightarrow> child_status env)
           \<and> children_started (trace R)
               = (case child_pid env of
                    None \<Rightarrow> []
                  | Some child \<Rightarrow>
                      [(prepare_wrapped_call env
                          (if front \<noteq> ''exec'' then ''exec'' # command else command), child)])
           \<and> (valid_utf8 name \<and> list_all valid_utf8 command \<and> valid_utf8 (target_prefix env)
               \<longrightarrow> result T = result R
                 \<and> children_started (trace T) = children_started (trace R)
                 \<and> records_written (trace T)
                     = [(location (supervisor_pid env detach),
                         file_json name command (target_prefix env))]))
       \<and> (\<not> dir_creatable env
         \<longrightarrow> result M = Threw FilesystemError \<and> records_written (trace M) = []
           \<and> children_started (trace M) = [] \<and> registry M = None)"
proof (intro conjI impI)
  assume "\<not> dir_creatable env"
  from run_missing_directory [OF this, of st command cwd stream_options clean_env detach
      env_vars specific]
  show "result M = Threw FilesystemError" and "records_written (trace M) = []"
    and "children_started (trace M) = []" and "registry M = None"
    unfolding assms(3) by (simp_all add: records_written_simps children_started_simps)
next
  let ?cmd = "if front \<noteq> ''exec'' then ''exec'' # command else command"
  let ?w = "prepare_wrapped_call env ?cmd"
  let ?sup = "supervisor_pid env detach"
  let ?env = "env\<lparr>proc_dir_writable := True, pid_file_opens := True\<rparr>"
  assume h: "\<not> proc_dir_writable env \<and> loggable (Some es) \<and> command = front # args
          \<and> (if detach then daemonize env else (Continues (self_pid env), []))
               = (Continues pid, devs)
          \<and> lock_proc_dir (locking env) = Inr lock
          \<and> resolve_process_name (Some es) st ?cmd specific = Some (Inr (name, command', st'))"
  then have nw: "\<not> proc_dir_writable env" and log: "loggable (Some es)"
    and cmd: "command = front # args"
    and dm: "(if detach then daemonize env else (Continues (self_pid env), []))
               = (Continues pid, devs)"
    and lock: "lock_proc_dir (locking env) = Inr lock"
    and res: "resolve_process_name (Some es) st ?cmd specific = Some (Inr (name, command', st'))"
    by simp_all
  from run_untracked [OF log cmd dm lock res nw, of cwd stream_options clean_env env_vars]
  obtain pre where pre: "records_written pre = []" "children_started pre = []"
    and run: "R = \<lparr>result = Returned (case child_pid env of None \<Rightarrow> 1 | Some c \<Rightarrow> child_status env),
          trace = pre @ acquired lock
            @ snd (supervise env (fst (make_options env cwd stream_options clean_env env_vars)) ?w)
            @ released lock,
          registry = Some es, pools = st', registry_at_start = Some es\<rparr>"
    unfolding assms(1) by blast
  show r1: "records_written (trace R) = []"
    unfolding run by (simp add: pre records_written_simps lock_events_quiet supervise_projections)
  show "registry R = Some es" and "registry_at_start R = Some es"
    unfolding run by simp_all
  show r3: "result R = Returned (case child_pid env of None \<Rightarrow> 1
                                   | Some child \<Rightarrow> child_status env)"
    unfolding run by simp
  show r4: "children_started (trace R)
               = (case child_pid env of None \<Rightarrow> [] | Some child \<Rightarrow> [(?w, child)])"
    unfolding run by (simp add: pre children_started_simps lock_events_quiet supervise_projections)
  {
    assume v: "valid_utf8 name \<and> list_all valid_utf8 command \<and> valid_utf8 (target_prefix env)"
    then have dump: "dumpable (file_json name command (target_prefix ?env))"
      by (simp add: dumpable_file_json)
    have dm': "(if detach then daemonize ?env else (Continues (self_pid ?env), []))
                   = (Continues pid, devs)"
      using dm by (cases detach) (simp_all add: daemonize_writable)
    have lock': "lock_proc_dir (locking ?env) = Inr lock" using lock by simp
    have w': "proc_dir_writable ?env" and o': "pid_file_opens ?env" by simp_all
    from run_tracked [OF log cmd dm' lock' res w' o' dump, of cwd stream_options clean_env env_vars]
    obtain pre' where pre': "records_written pre' = []" "children_started pre' = []"
      and run': "T = \<lparr>result = Returned (case child_pid ?env of None \<Rightarrow> 1 | Some c \<Rightarrow> child_status ?env),
          trace = pre' @ acquired lock
            @ (RecordWritten (location (supervisor_pid ?env detach))
                 (file_json name command (target_prefix ?env)) # released lock)
            @ snd (supervise ?env (fst (make_options ?env cwd stream_options clean_env env_vars))
                    (prepare_wrapped_call ?env ?cmd))
            @ acquired lock @ [RecordRemoved (location (supervisor_pid ?env detach))]
            @ released lock,
          registry = Some (AList.delete (location (supervisor_pid ?env detach))
                       (AList.update (location (supervisor_pid ?env detach))
                          (Contents (file_json name command (target_prefix ?env))) es)),
          pools = st',
          registry_at_start = Some (AList.update (location (supervisor_pid ?env detach))
                          (Contents (file_json name command (target_prefix ?env))) es)\<rparr>"
      unfolding assms(2) by blast
    show "result T = result R" unfolding run' r3 by (simp split: option.splits)
    show "children_started (trace T) = children_started (trace R)"
      unfolding r4 unfolding run'
      by (simp add: pre' children_started_simps lock_events_quiet supervise_projections)
    show "records_written (trace T)
            = [(location ?sup, file_json name command (target_prefix env))]"
      unfolding run'
      by (simp add: pre' records_written_simps lock_events_quiet supervise_projections
          supervisor_pid_writable)
  }
qed

theorem unwritable_directory_runs_untracked_witness:
  "\<not> proc_dir_writable (example_env\<lparr>proc_dir_writable := False, dir_creatable := False\<rparr>)
   \<and> \<not> dir_creatable (example_env\<lparr>proc_dir_writable := False, dir_creatable := False\<rparr>)
   \<and> loggable (Some [])
   \<and> resolve_process_name (Some []) (initial_statics (sconst 0)) [''exec'', ''echo'', ''hi''] ''''
       = Some (Inr (''curious_echo'', [''exec'', ''-a'', ''curious_echo'', ''echo'', ''hi''],
                    pop_prefix (initial_statics (sconst 0))))
   \<and> result (run_in_environment (example_env\<lparr>proc_dir_writable := False, dir_creatable := False\<rparr>)
        (Some []) (initial_statics (sconst 0)) [''echo'', ''hi''] '''' 0 False False [] '''')
       = Returned 0
   \<and> records_written (trace (run_in_environment
        (example_env\<lparr>proc_dir_writable := False, dir_creatable := False\<rparr>)
        (Some []) (initial_statics (sconst 0)) [''echo'', ''hi''] '''' 0 False False [] '''')) = []
   \<and> children_started (trace (run_in_environment
        (example_env\<lparr>proc_dir_writable := False, dir_creatable := False\<rparr>)
        (Some []) (initial_statics (sconst 0)) [''echo'', ''hi''] '''' 0 False False [] ''''))
       = [([''/tmp/wrapped.sh'', ''exec'', ''echo'', ''hi''], 777)]
   \<and> result (run_in_environment
        (example_env\<lparr>proc_dir_writable := False, dir_creatable := False\<rparr>
           \<lparr>proc_dir_writable := True, pid_file_opens := True\<rparr>)
        (Some []) (initial_statics (sconst 0)) [''echo'', ''hi''] '''' 0 False False [] '''')
       = Returned 0
   \<and> records_written (trace (run_in_environment
        (example_env\<lparr>proc_dir_writable := False, dir_creatable := False\<rparr>
           \<lparr>proc_dir_writable := True, pid_file_opens := True\<rparr>)
        (Some []) (initial_statics (sconst 0)) [''echo'', ''hi''] '''' 0 False False [] ''''))
       = [(''500.json'', file_json ''curious_echo'' [''echo'', ''hi''] ''/opt/env'')]
   \<and> result (run_in_environment (example_env\<lparr>proc_dir_writable := False, dir_creatable := False\<rparr>)
        None (initial_statics (sconst 0)) [''echo'', ''hi''] '''' 0 False False [] '''')
       = Threw FilesystemError
   \<and> children_started (trace (run_in_environment
        (example_env\<lparr>proc_dir_writable := False, dir_creatable := False\<rparr>)
        None (initial_statics (sconst 0)) [''echo'', ''hi''] '''' 0 False False [] '''')) = []"
proof -
  let ?env = "example_env\<lparr>proc_dir_writable := False, dir_creatable := False\<rparr>"
  have h1: "\<not> proc_dir_writable ?env" and h0: "\<not> dir_creatable ?env" by simp_all
  have h2: "loggable (Some [])"
    by (simp add: loggable_def get_all_running_processes_info_def)
  have h3: "[''echo'', ''hi''] = ''echo'' # [''hi'']" by simp
  have h4: "(if False then daemonize ?env else (Continues (self_pid ?env), []))
              = (Continues 500, [])"
    by (simp add: example_env_def)
  have h5: "lock_proc_dir (locking ?env) = Inr Held"
    by (simp add: example_env_def lock_proc_dir_def)
  have h6: "resolve_process_name (Some []) (initial_statics (sconst 0))
           (if ''echo'' \<noteq> ''exec'' then ''exec'' # [''echo'', ''hi''] else [''echo'', ''hi'']) ''''
         = Some (Inr (''curious_echo'', [''exec'', ''-a'', ''curious_echo'', ''echo'', ''hi''],
                      pop_prefix (initial_statics (sconst 0))))"
    using example_resolve by simp
  have h7: "valid_utf8 ''curious_echo'' \<and> list_all valid_utf8 [''echo'', ''hi'']
            \<and> valid_utf8 (target_prefix ?env)"
    by (simp add: example_env_def ascii_valid_utf8 ascii_def)
  note T = unwritable_directory_runs_untracked [OF refl refl refl,
      where env = ?env and es = "[]" and st = "initial_statics (sconst 0)"
        and command = "[''echo'', ''hi'']" and cwd = "''''" and stream_options = 0
        and clean_env = False and detach = False and env_vars = "[]" and specific = "''''"
        and front = "''echo''" and args = "[''hi'']" and pid = 500 and devs = "[]"
        and lock = Held and name = "''curious_echo''"
        and command' = "[''exec'', ''-a'', ''curious_echo'', ''echo'', ''hi'']"
        and st' = "pop_prefix (initial_statics (sconst 0))"]
  have child: "child_pid example_env = Some 777" "child_status example_env = 0"
    "prepare_wrapped_call example_env [''exec'', ''echo'', ''hi'']
       = [''/tmp/wrapped.sh'', ''exec'', ''echo'', ''hi'']"
    "target_prefix example_env = ''/opt/env''" "supervisor_pid ?env False = 500"
    by (simp_all add: example_env_def supervisor_pid_def)
  show ?thesis
    using T h0 h1 h2 h3 h4 h5 h6 h7 example_resolve
    by (simp add: child location_500)
qed

text \<open>
  C10 as stated fails: the directory does not exist and cannot be created; the listing of
  line 263 throws, no child is started and the run ends with the filesystem error.
\<close>

theorem missing_directory_ends_the_run:
  "result (run_in_environment (example_env\<lparr>dir_creatable := False\<rparr>) None
     (initial_statics (sconst 0)) [''echo'', ''hi''] '''' 0 False False [] '''')
     = Threw FilesystemError
   \<and> children_started (trace (run_in_environment (example_env\<lparr>dir_creatable := False\<rparr>) None
        (initial_statics (sconst 0)) [''echo'', ''hi''] '''' 0 False False [] '''')) = []"
  unfolding example_missing_directory_run by (simp add: children_started_simps)

subsection \<open>Stop requests\<close>

lemma make_options_stop:
  "stop (fst (make_options env cwd stream_options clean_env env_vars)) = stop default_options"
  by (simp add: make_options_def)

lemma supervise_stop_requests:
  "stop_requests (snd (supervise env opt wrapped))
     = (if children_started (snd (supervise env opt wrapped)) = [] then []
        else (if sigterm_arrives env then [sigterm_stop_actions] else []) @ [stop opt])"
  by (simp add: supervise_projections split: option.splits)

lemma block_stop_requests:
  "stop_requests (trace (block env pid d st cmd raw wrapped opt specific))
     = (if children_started (trace (block env pid d st cmd raw wrapped opt specific)) = [] then []
        else (if sigterm_arrives env then [sigterm_stop_actions] else []) @ [stop opt])"
proof (cases "lock_proc_dir (locking env)")
  case (Inl e)
  then show ?thesis by (simp add: block_lock_fails stop_requests_simps children_started_simps)
next
  case (Inr lock)
  note lock = this
  show ?thesis
  proof (cases "resolve_process_name d st cmd specific")
    case None
    then show ?thesis using lock
      by (simp add: block_name_never_returns lock_events_quiet)
  next
    case (Some r)
    show ?thesis
    proof (cases r)
      case (Inl e)
      then show ?thesis using lock Some
        by (simp add: block_name_throws lock_events_quiet stop_requests_simps
            children_started_simps)
    next
      case (Inr t)
      then obtain name cmd' st' where r: "r = Inr (name, cmd', st')" by (cases t) auto
      show ?thesis
      proof (cases "d \<noteq> None \<and> proc_dir_writable env")
        case False
        show ?thesis
          unfolding block_untracked [OF lock Some [unfolded r] False]
          by (simp add: lock_events_quiet stop_requests_simps children_started_simps
              supervise_stop_requests)
      next
        case True
        let ?c = "ScopedProcFile_ctor pid (locking env \<noteq> LockingDisabled) (pid_file_opens env)
           (target_prefix env) name raw lock d"
        obtain res evs where c: "?c = (res, evs)" by (cases ?c)
        have q: "children_started evs = []" "stop_requests evs = []"
          using ctor_projections(1,2) [of pid "locking env \<noteq> LockingDisabled" "pid_file_opens env"
              "target_prefix env" name raw lock d] c by simp_all
        show ?thesis
        proof (cases res)
          case (Inl ed)
          then obtain e d1 where Inl: "res = Inl (e, d1)" by (cases ed) auto
          show ?thesis
            unfolding block_record_not_written [OF lock Some [unfolded r] True c [unfolded Inl]]
            by (simp add: lock_events_quiet stop_requests_simps children_started_simps q)
        next
          case (Inr d')
          obtain d'' devs where dt: "ScopedProcFile_dtor (locking env) (location pid) d' = Inr (d'', devs)"
            using dtor_after_lock [OF lock] by blast
          show ?thesis
            unfolding block_tracked [OF lock Some [unfolded r] True c [unfolded Inr] dt]
            using dtor_projections [OF dt]
            by (simp add: lock_events_quiet stop_requests_simps children_started_simps q
                supervise_stop_requests)
        qed
      qed
    qed
  qed
qed

lemma run_stop_requests:
  "stop_requests (trace (run_in_environment env dir0 st command cwd stream_options clean_env
        detach env_vars specific))
     = (if children_started (trace (run_in_environment env dir0 st command cwd stream_options
              clean_env detach env_vars specific)) = [] then []
        else (if sigterm_arrives env then [sigterm_stop_actions] else [])
             @ [stop default_options])"
proof (cases "\<exists>info warns front args pid devs.
      get_all_running_processes_info None (fst (create_directories env dir0)) = Inr (info, warns)
      \<and> dumpable info
      \<and> command = front # args
      \<and> (if detach then daemonize env else (Continues (self_pid env), [])) = (Continues pid, devs)")
  case False
  from run_stops_before_block [OF False] show ?thesis by simp
next
  case True
  then obtain info warns front args pid devs where
    l: "get_all_running_processes_info None (fst (create_directories env dir0)) = Inr (info, warns)"
    and c: "command = front # args"
    and d: "(if detach then daemonize env else (Continues (self_pid env), [])) = (Continues pid, devs)"
    and dump: "dumpable info"
    by blast
  from run_reaches_block [OF l c d dump, of st cwd stream_options clean_env env_vars specific]
  obtain pre where pre: "children_started pre = []" "stop_requests pre = []"
    and run: "run_in_environment env dir0 st command cwd stream_options clean_env detach env_vars specific
       = (block env (supervisor_pid env detach) (fst (create_directories env dir0)) st
            (if front \<noteq> ''exec'' then ''exec'' # command else command) command
            (prepare_wrapped_call env (if front \<noteq> ''exec'' then ''exec'' # command else command))
            (fst (make_options env cwd stream_options clean_env env_vars)) specific)
         \<lparr>trace := pre @ trace
            (block env (supervisor_pid env detach) (fst (create_directories env dir0)) st
            (if front \<noteq> ''exec'' then ''exec'' # command else command) command
            (prepare_wrapped_call env (if front \<noteq> ''exec'' then ''exec'' # command else command))
            (fst (make_options env cwd stream_options clean_env env_vars)) specific)\<rparr>"
    by blast
  show ?thesis
    unfolding run
    by (simp add: stop_requests_simps children_started_simps pre block_stop_requests
        make_options_stop)
qed

lemma reproc_stop_sigterm:
  "reproc_stop exits_within sigterm_stop_actions
     = (if exits_within StopTerminate 3000 then [\<lparr>action = StopTerminate, timeout = 3000\<rparr>]
        else [\<lparr>action = StopTerminate, timeout = 3000\<rparr>, \<lparr>action = StopKill, timeout = 3000\<rparr>])"
  by (simp add: reproc_stop_def sigterm_stop_actions_def no_action_def)

lemma reproc_stop_default:
  "reproc_stop exits_within (stop default_options) = []"
  by (simp add: reproc_stop_def default_options_def no_action_def)

lemma example_sigterm_run:
  "run_in_environment (example_env\<lparr>sigterm_arrives := True\<rparr>) (Some [])
     (initial_statics (sconst 0)) [''echo'', ''hi''] '''' 0 False False [] ''''
   = \<lparr>result = Returned 0,
      trace = [LockAcquired,
               RecordWritten ''500.json'' (file_json ''curious_echo'' [''echo'', ''hi''] ''/opt/env''),
               LockReleased,
               ChildStarted [''/tmp/wrapped.sh'', ''exec'', ''echo'', ''hi''] 777,
               HandlerInstalled, StopRequested sigterm_stop_actions,
               Drained, StopRequested (stop default_options),
               LockAcquired, RecordRemoved ''500.json'', LockReleased],
      registry = Some [],
      pools = pop_prefix (initial_statics (sconst 0)),
      registry_at_start =
        Some [(''500.json'', Contents (file_json ''curious_echo'' [''echo'', ''hi''] ''/opt/env''))]\<rparr>"
  by (simp add: run_in_environment_def block_def example_env_def create_directories_def
      example_listing example_options lock_proc_dir_def example_resolve
      ScopedProcFile_ctor_def ScopedProcFile_dtor_def location_500 supervise_def
      acquired_def released_def example_dumpable)

text \<open>
  C8 (amended): a run asks the child to stop only when a child was started: once from the
  SIGTERM handler when the signal arrives, with the actions terminate then kill, 3000 ms each,
  and once after the drain, with the stop actions of the options, which run.cpp never sets.
  Carried out, the handler's request terminates first and kills only when the child has not
  exited within 3000 ms of the terminate; the request after the drain carries out no action.
\<close>

theorem sigterm_stop_escalates_and_final_stop_uses_default_actions:
  "stop_requests (trace (run_in_environment env dir0 st command cwd stream_options clean_env
        detach env_vars specific))
     = (if children_started (trace (run_in_environment env dir0 st command cwd stream_options
              clean_env detach env_vars specific)) = [] then []
        else (if sigterm_arrives env then [sigterm_stop_actions] else [])
             @ [stop default_options])
   \<and> reproc_stop exits_within sigterm_stop_actions
     = (if exits_within StopTerminate 3000 then [\<lparr>action = StopTerminate, timeout = 3000\<rparr>]
        else [\<lparr>action = StopTerminate, timeout = 3000\<rparr>, \<lparr>action = StopKill, timeout = 3000\<rparr>])
   \<and> reproc_stop exits_within (stop default_options) = []"
  using run_stop_requests reproc_stop_sigterm reproc_stop_default by blast

theorem sigterm_stop_escalates_and_final_stop_uses_default_actions_witness:
  "stop_requests (trace (run_in_environment (example_env\<lparr>sigterm_arrives := True\<rparr>) (Some [])
       (initial_statics (sconst 0)) [''echo'', ''hi''] '''' 0 False False [] ''''))
     = [sigterm_stop_actions, stop default_options]
   \<and> reproc_stop (\<lambda>a t. True) sigterm_stop_actions = [\<lparr>action = StopTerminate, timeout = 3000\<rparr>]
   \<and> reproc_stop (\<lambda>a t. False) sigterm_stop_actions
       = [\<lparr>action = StopTerminate, timeout = 3000\<rparr>, \<lparr>action = StopKill, timeout = 3000\<rparr>]"
proof -
  have started: "children_started (trace (run_in_environment
       (example_env\<lparr>sigterm_arrives := True\<rparr>) (Some [])
       (initial_statics (sconst 0)) [''echo'', ''hi''] '''' 0 False False [] '''')) \<noteq> []"
    unfolding example_sigterm_run by (simp add: children_started_simps)
  have arrives: "sigterm_arrives (example_env\<lparr>sigterm_arrives := True\<rparr>)" by simp
  show ?thesis
    using sigterm_stop_escalates_and_final_stop_uses_default_actions
            [of "example_env\<lparr>sigterm_arrives := True\<rparr>" "Some []" "initial_statics (sconst 0)"
               "[''echo'', ''hi'']" "''''" 0 False False "[]" "''''" "\<lambda>a t. True"]
          sigterm_stop_escalates_and_final_stop_uses_default_actions
            [of "example_env\<lparr>sigterm_arrives := True\<rparr>" "Some []" "initial_statics (sconst 0)"
               "[''echo'', ''hi'']" "''''" 0 False False "[]" "''''" "\<lambda>a t. False"]
          started arrives
    by simp
qed

text \<open>
  C8 as stated fails: the run of \<open>echo hi\<close> with no signal issues one stop request, after the
  drain, and its first action is no terminate with a bound of 3000 ms.
\<close>

theorem final_stop_request_is_not_terminate_then_kill:
  "stop_requests (trace (run_in_environment example_env (Some [])
       (initial_statics (sconst 0)) [''echo'', ''hi''] '''' 0 False False [] ''''))
     = [\<lparr>first = \<lparr>action = StopNoop, timeout = 0\<rparr>, second = \<lparr>action = StopNoop, timeout = 0\<rparr>,
         third = \<lparr>action = StopNoop, timeout = 0\<rparr>\<rparr>]
   \<and> action (first (hd (stop_requests (trace (run_in_environment example_env (Some [])
       (initial_statics (sconst 0)) [''echo'', ''hi''] '''' 0 False False [] ''''))))) \<noteq> StopTerminate"
  unfolding example_tracked_run
  by (simp add: stop_requests_simps default_options_def no_action_def)

end
